theory Spec2Isabelle
  imports Main "HOL-Library.Multiset" "HOL-Library.Char_ord" "HOL-Library.List_Lexorder"
begin

section \<open>Data model (main.go, lines 14-41)\<close>

text \<open>
  Go strings are byte sequences; they are modelled as \<open>string\<close> (a list of 8-bit
  characters), so that comparison and sorting are bytewise as in Go.
\<close>

record Message =
  UserID :: string
  Text :: string
  Timestamp :: string

record ProblematicDialog =
  FolderName :: string
  ID :: string
  Types :: "string list"
  Files :: "string list"
  Triggers :: "string list"

text \<open>The two methods of \<open>os.FileInfo\<close> that the program calls.\<close>

record FileInfo =
  Name :: string
  IsDir :: bool

section \<open>The world outside main.go\<close>

text \<open>
  The file system, the standard-library functions with Unicode tables behind them and
  the pattern matcher of the package (\<open>FindPatternMatches\<close>, \<open>problemTypes\<close>, whose
  definitions are in another file of the package) are parameters of the model. A failing
  call returns \<open>None\<close> (or \<open>False\<close> for calls that return only an error).

  Go does not specify the order in which \<open>range\<close> walks a map, and the order may differ
  from one loop to the next. \<open>rangeProblemTypes w g n\<close> is the sequence of keys that
  the \<open>n\<close>-th execution of a loop \<open>for typeKey := range problemTypes\<close> yields in the
  goroutine \<open>g\<close>: \<open>main\<close> itself, or the goroutine that \<open>main\<close> starts for a folder
  (line 86). \<open>schedule w ds\<close> is the order in which the dialogs \<open>ds\<close> sent by these
  goroutines are received from the channel \<open>problematicDialogs\<close>.

  \<open>WriteFile\<close> tells for a path whether the write succeeds; the bytes written are not
  modelled.
\<close>

datatype goroutine = MainRoutine | ScanRoutine string

record world =
  ReadDir :: "string \<Rightarrow> FileInfo list option"
  ReadFile :: "string \<Rightarrow> string option"
  Unmarshal :: "string \<Rightarrow> Message list option"
  Join :: "string list \<Rightarrow> string"
  ToLower :: "string \<Rightarrow> string"
  EqualFold :: "string \<Rightarrow> string \<Rightarrow> bool"
  FindPatternMatches :: "string \<Rightarrow> string \<Rightarrow> string list"
  rangeProblemTypes :: "goroutine \<Rightarrow> nat \<Rightarrow> string list"
  schedule :: "ProblematicDialog list \<Rightarrow> ProblematicDialog list"
  MkdirAll :: "string \<Rightarrow> bool"
  WriteFile :: "string \<Rightarrow> bool"

section \<open>String functions with a fixed meaning\<close>

text \<open>\<open>strings.HasPrefix s prefix\<close> and \<open>strings.Contains s substr\<close>.\<close>

fun HasPrefix :: "string \<Rightarrow> string \<Rightarrow> bool" where
  "HasPrefix s [] = True"
| "HasPrefix [] (p # ps) = False"
| "HasPrefix (c # s) (p # ps) = (c = p \<and> HasPrefix s ps)"

fun Contains :: "string \<Rightarrow> string \<Rightarrow> bool" where
  "Contains [] substr = (substr = [])"
| "Contains (c # s) substr = (HasPrefix (c # s) substr \<or> Contains s substr)"

text \<open>
  \<open>convFilePattern\<close> (line 44) is the regular expression \<^verbatim>\<open>conv_([A-Z]+-\d+)_\<close>.
  The character after the letters must be \<open>-\<close> and the one after the digits \<open>_\<close>,
  neither of which is in the class before it, so at a given start position the match,
  if any, takes the longest run of letters and the longest run of digits.
  \<open>convMatchAt s\<close> is the match anchored at the start of \<open>s\<close>: the whole match and
  the group.
\<close>

definition isUpperAZ :: "char \<Rightarrow> bool" where
  "isUpperAZ c = (CHR ''A'' \<le> c \<and> c \<le> CHR ''Z'')"

definition isDigit09 :: "char \<Rightarrow> bool" where
  "isDigit09 c = (CHR ''0'' \<le> c \<and> c \<le> CHR ''9'')"

definition convMatchAt :: "string \<Rightarrow> (string \<times> string) option" where
  "convMatchAt s =
     (if HasPrefix s ''conv_'' then
        (let r = drop 5 s;
             letters = takeWhile isUpperAZ r;
             r1 = dropWhile isUpperAZ r
         in if letters = [] then None
            else (case r1 of
                    [] \<Rightarrow> None
                  | c # r2 \<Rightarrow>
                      if c \<noteq> CHR ''-'' then None
                      else (let digits = takeWhile isDigit09 r2;
                                r3 = dropWhile isDigit09 r2
                            in if digits = [] then None
                               else (case r3 of
                                       [] \<Rightarrow> None
                                     | u # _ \<Rightarrow>
                                         if u = CHR ''_''
                                         then Some (''conv_'' @ letters @ ''-'' @ digits @ ''_'',
                                                    letters @ ''-'' @ digits)
                                         else None))))
      else None)"

text \<open>
  \<open>convFilePattern.FindStringSubmatch\<close>: the leftmost match, as the list of the whole
  match and the group, or the empty list (Go's nil) when nothing matches.
\<close>

fun FindStringSubmatch :: "string \<Rightarrow> string list" where
  "FindStringSubmatch [] = []"
| "FindStringSubmatch (c # s) =
     (case convMatchAt (c # s) of
        Some (whole, grp) \<Rightarrow> [whole, grp]
      | None \<Rightarrow> FindStringSubmatch s)"

section \<open>analyzeDialogFolder (lines 160-256)\<close>

text \<open>
  The local variables that the loops of \<open>analyzeDialogFolder\<close> update. \<open>foundTypes\<close> is
  a \<open>map[string]bool\<close> holding only \<open>true\<close>, that is a set of keys: it is kept as a
  list without repetition. \<open>ranges\<close> counts the executions of the loop over
  \<open>problemTypes\<close> so far.
\<close>

record scan_state =
  dialogID :: string
  foundTypes :: "string list"
  foundTriggers :: "string list"
  ranges :: nat

text \<open>Lines 219-230: one match is appended unless a recorded trigger equals it under \<open>EqualFold\<close>.\<close>

definition triggerExists :: "world \<Rightarrow> string list \<Rightarrow> string \<Rightarrow> bool" where
  "triggerExists w triggers match = list_ex (\<lambda>t. EqualFold w t match) triggers"

definition addTrigger :: "world \<Rightarrow> string list \<Rightarrow> string \<Rightarrow> string list" where
  "addTrigger w triggers match =
     (if \<not> triggerExists w triggers match then triggers @ [match] else triggers)"

text \<open>Lines 211-231: the body of the loop over the problem types, for one type.\<close>

definition scanType :: "world \<Rightarrow> string \<Rightarrow> scan_state \<Rightarrow> string \<Rightarrow> scan_state" where
  "scanType w text st typeKey =
     (let matches = FindPatternMatches w text typeKey
      in if length matches = 0 then st
         else st\<lparr>foundTypes := List.insert typeKey (foundTypes st),
                 foundTriggers := foldl (addTrigger w) (foundTriggers st) matches\<rparr>)"

text \<open>Lines 202-232: the body of the loop over the messages, for one message.\<close>

definition scanMessage :: "world \<Rightarrow> string \<Rightarrow> scan_state \<Rightarrow> Message \<Rightarrow> scan_state" where
  "scanMessage w folderName st msg =
     (if \<not> HasPrefix (UserID msg) ''user_'' then st
      else (let text = ToLower w (Text msg)
            in foldl (scanType w text) (st\<lparr>ranges := Suc (ranges st)\<rparr>)
                 (rangeProblemTypes w (ScanRoutine folderName) (ranges st))))"

text \<open>Lines 177-234: the body of the loop over the file names, for one file name.\<close>

definition scanFile :: "world \<Rightarrow> string \<Rightarrow> string \<Rightarrow> scan_state \<Rightarrow> string \<Rightarrow> scan_state" where
  "scanFile w folderPath folderName st fileName =
     (if Contains fileName ''_chat.json'' then
        (let filePath = Join w [folderPath, fileName];
             matches = FindStringSubmatch fileName;
             st1 = st\<lparr>dialogID := (if length matches > 1 then matches ! 1 else folderName)\<rparr>
         in case ReadFile w filePath of
              None \<Rightarrow> st1
            | Some content \<Rightarrow>
                (case Unmarshal w content of
                   None \<Rightarrow> st1
                 | Some messages \<Rightarrow> foldl (scanMessage w folderName) st1 messages))
      else st)"

definition initialScan :: scan_state where
  "initialScan = \<lparr>dialogID = [], foundTypes = [], foundTriggers = [], ranges = 0\<rparr>"

text \<open>
  The result is \<open>None\<close> for Go's nil. \<open>sort.Strings\<close> is \<open>sort\<close> on the bytewise
  lexicographic order of strings.
\<close>

definition analyzeDialogFolder :: "world \<Rightarrow> string \<Rightarrow> string \<Rightarrow> ProblematicDialog option" where
  "analyzeDialogFolder w folderPath folderName =
     (case ReadDir w folderPath of
        None \<Rightarrow> None
      | Some files \<Rightarrow>
          (let fileNames = map Name files;
               st = foldl (scanFile w folderPath folderName) initialScan fileNames
           in if length (foundTypes st) > 0
              then Some \<lparr>FolderName = folderName, ID = dialogID st,
                         Types = sort (foundTypes st), Files = fileNames,
                         Triggers = foundTriggers st\<rparr>
              else None))"

section \<open>Go maps with counts and lists as values\<close>

text \<open>
  \<open>stats\<close>, \<open>allDialogs\<close> and \<open>triggerStats\<close> are Go maps. A map is modelled as an
  association list without repeated keys, in the order in which the keys were first
  stored, so that this order can be talked about. Reading a missing key gives the zero
  value. The counts are Go \<open>int\<close> (64 bits); each is at most the number of dialogs
  received, so they are modelled as \<open>nat\<close>.
\<close>

definition lookupCount :: "(string \<times> nat) list \<Rightarrow> string \<Rightarrow> nat" where
  "lookupCount m k = (case map_of m k of None \<Rightarrow> 0 | Some c \<Rightarrow> c)"

definition lookupList :: "(string \<times> 'a list) list \<Rightarrow> string \<Rightarrow> 'a list" where
  "lookupList m k = (case map_of m k of None \<Rightarrow> [] | Some ds \<Rightarrow> ds)"

text \<open>\<open>m[k]++\<close> and \<open>m[k] = append(m[k], d)\<close>.\<close>

fun incr :: "(string \<times> nat) list \<Rightarrow> string \<Rightarrow> (string \<times> nat) list" where
  "incr [] k = [(k, 1)]"
| "incr ((k', c) # m) k = (if k' = k then (k', Suc c) # m else (k', c) # incr m k)"

fun appendTo :: "(string \<times> 'a list) list \<Rightarrow> string \<Rightarrow> 'a \<Rightarrow> (string \<times> 'a list) list" where
  "appendTo [] k d = [(k, [d])]"
| "appendTo ((k', ds) # m) k d =
     (if k' = k then (k', ds @ [d]) # m else (k', ds) # appendTo m k d)"

text \<open>
  \<open>rangeMap m its\<close>: \<open>its\<close> is a sequence of key-value pairs that a \<open>range\<close> loop over
  the map \<open>m\<close> may yield, that is the entries of \<open>m\<close> in any order.
\<close>

definition rangeMap :: "('k \<times> 'v) list \<Rightarrow> ('k \<times> 'v) list \<Rightarrow> bool" where
  "rangeMap m its = (mset its = mset m)"

text \<open>
  \<open>sortSlice lessFn xs ys\<close>: \<open>ys\<close> is a possible content of the slice after
  \<open>sort.Slice(xs, lessFn)\<close>. The package documents \<open>sort.Slice\<close> as sorting by its function
  without a guarantee of stability: the result is a rearrangement of \<open>xs\<close> in which no
  later element is less than an earlier one.
\<close>

definition sortSlice :: "('a \<Rightarrow> 'a \<Rightarrow> bool) \<Rightarrow> 'a list \<Rightarrow> 'a list \<Rightarrow> bool" where
  "sortSlice lessFn xs ys = (mset ys = mset xs \<and> sorted_wrt (\<lambda>a b. \<not> lessFn b a) ys)"

section \<open>main (lines 46-157)\<close>

text \<open>The error messages that \<open>main\<close> prints (lines 63, 71, 115, 126, 132 and 145).\<close>

datatype report =
    ErrCreateTypeDir string
  | ErrReadInputDir
  | ErrCreateDialogDir
  | ErrReadFile string
  | ErrCopyFile string
  | ErrInfoFile

record aggregate =
  stats :: "(string \<times> nat) list"
  allDialogs :: "(string \<times> ProblematicDialog list) list"
  console :: "report list"

definition inputDir :: string where
  "inputDir = ''./output/conversations''"

definition outputBaseDir :: string where
  "outputBaseDir = ''./problematicDialogs''"

text \<open>Lines 60-66: the first directory that cannot be created ends \<open>main\<close>.\<close>

fun createTypeDirs :: "world \<Rightarrow> string list \<Rightarrow> report option" where
  "createTypeDirs w [] = None"
| "createTypeDirs w (typeKey # typeKeys) =
     (let typeDir = Join w [outputBaseDir, typeKey]
      in if \<not> MkdirAll w typeDir then Some (ErrCreateTypeDir typeDir)
         else createTypeDirs w typeKeys)"

text \<open>Lines 120-134: the messages printed while the files of a dialog are copied.\<close>

definition copyFile :: "world \<Rightarrow> string \<Rightarrow> ProblematicDialog \<Rightarrow> string \<Rightarrow> report list" where
  "copyFile w typeDir dialog file =
     (let srcPath = Join w [inputDir, FolderName dialog, file];
          dstPath = Join w [typeDir, file]
      in case ReadFile w srcPath of
           None \<Rightarrow> [ErrReadFile file]
         | Some input \<Rightarrow> if \<not> WriteFile w dstPath then [ErrCopyFile file] else [])"

text \<open>Lines 109-149: the body of the loop over the types of a received dialog.\<close>

definition aggregateType :: "world \<Rightarrow> ProblematicDialog \<Rightarrow> aggregate \<Rightarrow> string \<Rightarrow> aggregate" where
  "aggregateType w dialog ag typeKey =
     (let ag1 = ag\<lparr>stats := incr (stats ag) typeKey\<rparr>;
          typeDir = Join w [outputBaseDir, typeKey, FolderName dialog]
      in if \<not> MkdirAll w typeDir
         then ag1\<lparr>console := console ag1 @ [ErrCreateDialogDir]\<rparr>
         else (let copied = concat (map (copyFile w typeDir dialog) (Files dialog));
                   infoFile = Join w [typeDir, ''trigger_info.txt''];
                   written = (if \<not> WriteFile w infoFile then [ErrInfoFile] else [])
               in ag1\<lparr>console := console ag1 @ copied @ written,
                       allDialogs := appendTo (allDialogs ag1) typeKey dialog\<rparr>))"

text \<open>Lines 107-150: the loop over the channel.\<close>

definition aggregateDialog :: "world \<Rightarrow> aggregate \<Rightarrow> ProblematicDialog \<Rightarrow> aggregate" where
  "aggregateDialog w ag dialog = foldl (aggregateType w dialog) ag (Types dialog)"

definition emptyAggregate :: aggregate where
  "emptyAggregate = \<lparr>stats = [], allDialogs = [], console = []\<rparr>"

text \<open>
  Lines 80-94: one call of \<open>analyzeDialogFolder\<close> for every entry of the input directory
  that is a directory; the dialogs that are not nil are sent to the channel.
\<close>

definition scanFolders :: "world \<Rightarrow> FileInfo list \<Rightarrow> ProblematicDialog list" where
  "scanFolders w folders =
     List.map_filter
       (\<lambda>folder. analyzeDialogFolder w (Join w [inputDir, Name folder]) (Name folder))
       (filter IsDir folders)"

text \<open>
  \<open>main\<close> up to the call of \<open>printStatistics\<close>: either it returns early after printing an
  error, or it reaches line 153 with the aggregate built from the dialogs received.
\<close>

datatype outcome = Aborted report | Completed aggregate

definition main :: "world \<Rightarrow> outcome" where
  "main w =
     (case createTypeDirs w (rangeProblemTypes w MainRoutine 0) of
        Some err \<Rightarrow> Aborted err
      | None \<Rightarrow>
          (case ReadDir w inputDir of
             None \<Rightarrow> Aborted ErrReadInputDir
           | Some folders \<Rightarrow>
               Completed (foldl (aggregateDialog w) emptyAggregate
                            (schedule w (scanFolders w folders)))))"

section \<open>printStatistics (lines 259-336)\<close>

text \<open>
  Lines 269-276: \<open>statsList\<close> is filled by a \<open>range\<close> loop over \<open>stats\<close> and sorted with
  \<open>sort.Slice\<close> by decreasing count. \<open>statsRanking stats its statsList\<close>: the loop
  yields \<open>its\<close> and the sorted slice is \<open>statsList\<close>.
\<close>

definition statsRanking ::
  "(string \<times> nat) list \<Rightarrow> (string \<times> nat) list \<Rightarrow> (string \<times> nat) list \<Rightarrow> bool" where
  "statsRanking m its statsList =
     (rangeMap m its \<and> sortSlice (\<lambda>i j. snd i > snd j) its statsList)"

text \<open>
  Lines 305-312: \<open>triggerStats\<close>, for a sequence \<open>its\<close> of entries that the \<open>range\<close>
  loop over \<open>allDialogs\<close> yields.
\<close>

definition countDialog :: "(string \<times> nat) list \<Rightarrow> ProblematicDialog \<Rightarrow> (string \<times> nat) list" where
  "countDialog triggerStats dialog = foldl incr triggerStats (Triggers dialog)"

definition triggerStatsOf :: "(string \<times> ProblematicDialog list) list \<Rightarrow> (string \<times> nat) list" where
  "triggerStatsOf its = foldl (\<lambda>triggerStats (typeKey, dialogs). foldl countDialog triggerStats dialogs) [] its"

section \<open>The wording of the specification\<close>

text \<open>
  The dialog ID as the specification words it: the first successful extraction among
  the names of the transcripts, and the folder name when no name matches.
\<close>

definition spec_dialogID :: "string \<Rightarrow> string list \<Rightarrow> string" where
  "spec_dialogID folderName transcripts =
     (case filter (\<lambda>m. length m > 1) (map FindStringSubmatch transcripts) of
        [] \<Rightarrow> folderName
      | m # _ \<Rightarrow> m ! 1)"

text \<open>
  "A problem type matched a client message of the folder's transcripts", as the
  specification words it: the messages of a transcript are those of a file whose name
  contains \<open>_chat.json\<close> and that can be read and parsed; a type matches a message
  written by the client when the matcher finds a trigger of the type in its lower-cased
  text.
\<close>

definition fileMessages :: "world \<Rightarrow> string \<Rightarrow> string \<Rightarrow> Message list" where
  "fileMessages w folderPath fileName =
     (if Contains fileName ''_chat.json'' then
        (case ReadFile w (Join w [folderPath, fileName]) of
           None \<Rightarrow> []
         | Some content \<Rightarrow> (case Unmarshal w content of None \<Rightarrow> [] | Some messages \<Rightarrow> messages))
      else [])"

definition transcriptMessages :: "world \<Rightarrow> string \<Rightarrow> Message list" where
  "transcriptMessages w folderPath =
     (case ReadDir w folderPath of
        None \<Rightarrow> []
      | Some files \<Rightarrow> concat (map (fileMessages w folderPath) (map Name files)))"

definition matchedIn :: "world \<Rightarrow> Message list \<Rightarrow> string \<Rightarrow> bool" where
  "matchedIn w messages typeKey =
     list_ex (\<lambda>msg. HasPrefix (UserID msg) ''user_''
                  \<and> FindPatternMatches w (ToLower w (Text msg)) typeKey \<noteq> [])
       messages"

definition typeMatched :: "world \<Rightarrow> string \<Rightarrow> string \<Rightarrow> bool" where
  "typeMatched w folderPath typeKey = matchedIn w (transcriptMessages w folderPath) typeKey"

text \<open>
  The matches of a folder, in the order in which the loops of the scan meet them: file
  by file, message by message of the client, type by type in the order that the loop
  over \<open>problemTypes\<close> yields for this message (\<open>n\<close> counts the executions of that loop
  so far), and match by match as the matcher returns them.
\<close>

fun messagesMatches :: "world \<Rightarrow> string \<Rightarrow> nat \<Rightarrow> Message list \<Rightarrow> string list" where
  "messagesMatches w folderName n [] = []"
| "messagesMatches w folderName n (msg # msgs) =
     (if HasPrefix (UserID msg) ''user_''
      then concat (map (FindPatternMatches w (ToLower w (Text msg)))
                     (rangeProblemTypes w (ScanRoutine folderName) n))
           @ messagesMatches w folderName (Suc n) msgs
      else messagesMatches w folderName n msgs)"

fun filesMatches :: "world \<Rightarrow> string \<Rightarrow> string \<Rightarrow> nat \<Rightarrow> string list \<Rightarrow> string list" where
  "filesMatches w folderPath folderName n [] = []"
| "filesMatches w folderPath folderName n (fileName # fileNames) =
     messagesMatches w folderName n (fileMessages w folderPath fileName)
     @ filesMatches w folderPath folderName
         (n + length (filter (\<lambda>msg. HasPrefix (UserID msg) ''user_'') (fileMessages w folderPath fileName)))
         fileNames"

definition folderMatches :: "world \<Rightarrow> string \<Rightarrow> string \<Rightarrow> string list" where
  "folderMatches w folderPath folderName =
     (case ReadDir w folderPath of
        None \<Rightarrow> []
      | Some files \<Rightarrow> filesMatches w folderPath folderName 0 (map Name files))"

text \<open>A transcript file fails: it cannot be read, or its content cannot be parsed.\<close>

definition transcriptFails :: "world \<Rightarrow> string \<Rightarrow> string \<Rightarrow> bool" where
  "transcriptFails w folderPath fileName =
     (case ReadFile w (Join w [folderPath, fileName]) of
        None \<Rightarrow> True
      | Some content \<Rightarrow> Unmarshal w content = None)"

text \<open>
  The type ranking as the specification words it: by decreasing count, types with equal
  counts in the order in which they were first stored (\<open>sort_key\<close> is a stable sort).
\<close>

definition spec_stableRanking :: "(string \<times> nat) list \<Rightarrow> (string \<times> nat) list" where
  "spec_stableRanking m = sort_key (\<lambda>(typeKey, count). - int count) m"

text \<open>
  The trigger frequencies as the specification words them: every trigger is counted
  under its case-folded form.
\<close>

definition spec_triggerStatsOf ::
  "(string \<Rightarrow> string) \<Rightarrow> (string \<times> ProblematicDialog list) list \<Rightarrow> (string \<times> nat) list" where
  "spec_triggerStatsOf caseFold its =
     foldl (\<lambda>triggerStats (typeKey, dialogs).
              foldl (\<lambda>triggerStats dialog. foldl incr triggerStats (map caseFold (Triggers dialog)))
                triggerStats dialogs)
       [] its"

text \<open>The invariant of the aggregate: no list of dialogs is longer than the count of its type.\<close>

definition countsCover :: "aggregate \<Rightarrow> bool" where
  "countsCover ag = (\<forall>t. length (lookupList (allDialogs ag) t) \<le> lookupCount (stats ag) t)"

section \<open>Sample inputs\<close>

text \<open>
  A small world held in memory, for evaluating the program on concrete inputs. On ASCII
  strings \<open>asciiToLower\<close> and \<open>asciiEqualFold\<close> agree with \<open>strings.ToLower\<close> and
  \<open>strings.EqualFold\<close>, and \<open>sampleJoin\<close> with \<open>filepath.Join\<close> on the paths used
  here. \<open>sampleMatches\<close> reports the triggers configured for a type, as configured, that
  occur in the text.
\<close>

definition asciiLower :: "char \<Rightarrow> char" where
  "asciiLower c =
     (case map_of (zip ''ABCDEFGHIJKLMNOPQRSTUVWXYZ'' ''abcdefghijklmnopqrstuvwxyz'') c of
        None \<Rightarrow> c
      | Some l \<Rightarrow> l)"

definition asciiToLower :: "string \<Rightarrow> string" where
  "asciiToLower s = map asciiLower s"

definition asciiEqualFold :: "string \<Rightarrow> string \<Rightarrow> bool" where
  "asciiEqualFold s t = (asciiToLower s = asciiToLower t)"

fun joinWith :: "string list \<Rightarrow> string" where
  "joinWith [] = []"
| "joinWith [p] = p"
| "joinWith (p # q # ps) = p @ ''/'' @ joinWith (q # ps)"

definition sampleJoin :: "string list \<Rightarrow> string" where
  "sampleJoin ps = (let r = joinWith ps in if HasPrefix r ''./'' then drop 2 r else r)"

definition sampleMatches :: "(string \<times> string list) list \<Rightarrow> string \<Rightarrow> string \<Rightarrow> string list" where
  "sampleMatches table text typeKey =
     filter (\<lambda>t. Contains text (asciiToLower t)) (lookupList table typeKey)"

text \<open>
  The directories, the files with their contents, the transcripts that the contents
  parse to, the triggers of each problem type and the directories that cannot be created.
\<close>

definition sampleWorld ::
  "(string \<times> FileInfo list) list \<Rightarrow> (string \<times> string) list \<Rightarrow>
   (string \<times> Message list) list \<Rightarrow> (string \<times> string list) list \<Rightarrow> string list \<Rightarrow> world" where
  "sampleWorld dirs files chats table locked =
     \<lparr>ReadDir = map_of dirs, ReadFile = map_of files, Unmarshal = map_of chats,
      Join = sampleJoin, ToLower = asciiToLower, EqualFold = asciiEqualFold,
      FindPatternMatches = sampleMatches table,
      rangeProblemTypes = (\<lambda>g n. map fst table),
      schedule = (\<lambda>ds. ds),
      MkdirAll = (\<lambda>p. p \<notin> set locked), WriteFile = (\<lambda>p. True)\<rparr>"

definition fileEntry :: "string \<Rightarrow> FileInfo" where
  "fileEntry n = \<lparr>Name = n, IsDir = False\<rparr>"

definition dirEntry :: "string \<Rightarrow> FileInfo" where
  "dirEntry n = \<lparr>Name = n, IsDir = True\<rparr>"

definition clientMsg :: "string \<Rightarrow> Message" where
  "clientMsg t = \<lparr>UserID = ''user_7'', Text = t, Timestamp = []\<rparr>"

definition operatorMsg :: "string \<Rightarrow> Message" where
  "operatorMsg t = \<lparr>UserID = ''operator_3'', Text = t, Timestamp = []\<rparr>"

text \<open>
  A folder with one transcript, in which the operator and then the client write; two
  problem types, whose triggers include the same word in two spellings.
\<close>

definition oneTranscript :: "Message list \<Rightarrow> world" where
  "oneTranscript messages = sampleWorld
     [(''d'', [fileEntry ''conv_AAA-1_chat.json'', fileEntry ''conv_AAA-1_info.json''])]
     [(''d/conv_AAA-1_chat.json'', ''c1'')]
     [(''c1'', messages)]
     [(''refund'', [''Refund'']), (''money'', [''refund'', ''charge''])]
     []"

text \<open>A folder with two transcripts, each with a message of the client that matches.\<close>

definition twoTranscripts :: "string \<Rightarrow> world" where
  "twoTranscripts second = sampleWorld
     [(''d'', [fileEntry ''conv_AAA-1_chat.json'', fileEntry second])]
     [(''d/conv_AAA-1_chat.json'', ''c1''), (''d/'' @ second, ''c2'')]
     [(''c1'', [clientMsg ''I want a refund'']), (''c2'', [clientMsg ''refund please''])]
     [(''refund'', [''refund''])]
     []"

text \<open>A folder with two transcripts, the first of which does not parse.\<close>

definition brokenTranscript :: world where
  "brokenTranscript = sampleWorld
     [(''d'', [fileEntry ''conv_AAA-1_chat.json'', fileEntry ''conv_BBB-2_chat.json''])]
     [(''d/conv_AAA-1_chat.json'', ''{{''), (''d/conv_BBB-2_chat.json'', ''c2'')]
     [(''c2'', [clientMsg ''refund please''])]
     [(''refund'', [''refund''])]
     []"

text \<open>
  An input directory with two dialog folders and a plain file: in \<open>AAA-1\<close> the client
  asks for a refund, in \<open>BBB-2\<close> only the operator writes.
\<close>

definition sampleRun :: "(string \<times> string list) list \<Rightarrow> string list \<Rightarrow> world" where
  "sampleRun table locked = sampleWorld
     [(''./output/conversations'', [dirEntry ''AAA-1'', dirEntry ''BBB-2'', fileEntry ''README.txt'']),
      (''output/conversations/AAA-1'', [fileEntry ''conv_AAA-1_chat.json'']),
      (''output/conversations/BBB-2'', [fileEntry ''conv_BBB-2_chat.json''])]
     [(''output/conversations/AAA-1/conv_AAA-1_chat.json'', ''c1''),
      (''output/conversations/BBB-2/conv_BBB-2_chat.json'', ''c2'')]
     [(''c1'', [clientMsg ''I want a refund please'']), (''c2'', [operatorMsg ''hello''])]
     table locked"

definition dialogAAA :: "string list \<Rightarrow> string list \<Rightarrow> ProblematicDialog" where
  "dialogAAA types triggers = \<lparr>FolderName = ''AAA-1'', ID = ''AAA-1'', Types = types,
     Files = [''conv_AAA-1_chat.json''], Triggers = triggers\<rparr>"

definition dialogBBB :: "string list \<Rightarrow> string list \<Rightarrow> ProblematicDialog" where
  "dialogBBB types triggers = \<lparr>FolderName = ''BBB-2'', ID = ''BBB-2'', Types = types,
     Files = [''conv_BBB-2_chat.json''], Triggers = triggers\<rparr>"

section \<open>Properties\<close>

lemmas sample_defs = sampleWorld_def fileEntry_def dirEntry_def clientMsg_def operatorMsg_def
  sampleJoin_def sampleMatches_def asciiToLower_def asciiLower_def asciiEqualFold_def
  lookupList_def

lemmas scan_defs = analyzeDialogFolder_def scanFile_def scanMessage_def scanType_def
  addTrigger_def triggerExists_def initialScan_def convMatchAt_def isUpperAZ_def
  isDigit09_def List.insert_def

subsection \<open>The program on the sample inputs\<close>

lemma oneTranscript_matched:
  "analyzeDialogFolder
     (oneTranscript [operatorMsg ''Refund is not possible'', clientMsg ''I want a REFUND, reverse the charge''])
     ''d'' ''AAA-1''
   = Some \<lparr>FolderName = ''AAA-1'', ID = ''AAA-1'', Types = [''money'', ''refund''],
           Files = [''conv_AAA-1_chat.json'', ''conv_AAA-1_info.json''],
           Triggers = [''Refund'', ''charge'']\<rparr>"
  by (simp add: oneTranscript_def sample_defs scan_defs)

lemma oneTranscript_unmatched:
  "analyzeDialogFolder (oneTranscript [operatorMsg ''Refund is not possible'', clientMsg ''thank you''])
     ''d'' ''AAA-1'' = None"
  by (simp add: oneTranscript_def sample_defs scan_defs)

lemma twoTranscripts_matched:
  "analyzeDialogFolder (twoTranscripts ''conv_BBB-2_chat.json'') ''d'' ''F-9''
     = Some \<lparr>FolderName = ''F-9'', ID = ''BBB-2'', Types = [''refund''],
             Files = [''conv_AAA-1_chat.json'', ''conv_BBB-2_chat.json''],
             Triggers = [''refund'']\<rparr>"
  by (simp add: twoTranscripts_def sample_defs scan_defs)

lemma brokenTranscript_result:
  "analyzeDialogFolder brokenTranscript ''d'' ''F-9''
     = Some \<lparr>FolderName = ''F-9'', ID = ''BBB-2'', Types = [''refund''],
             Files = [''conv_AAA-1_chat.json'', ''conv_BBB-2_chat.json''],
             Triggers = [''refund'']\<rparr>"
  by (simp add: brokenTranscript_def sample_defs scan_defs)

lemmas main_defs = main_def scanFolders_def aggregateDialog_def aggregateType_def copyFile_def
  emptyAggregate_def inputDir_def outputBaseDir_def List.map_filter_def

lemma sampleRun_one_type:
  "main (sampleRun [(''refund'', [''refund''])] []) =
     Completed \<lparr>stats = [(''refund'', 1)],
                allDialogs = [(''refund'', [dialogAAA [''refund''] [''refund'']])],
                console = []\<rparr>"
  by (simp add: sampleRun_def dialogAAA_def sample_defs scan_defs main_defs)

lemma sampleRun_locked:
  "main (sampleRun [(''refund'', [''refund''])] [''problematicDialogs/refund/AAA-1'']) =
     Completed \<lparr>stats = [(''refund'', 1)], allDialogs = [], console = [ErrCreateDialogDir]\<rparr>"
  by (simp add: sampleRun_def dialogAAA_def sample_defs scan_defs main_defs)

lemma sampleRun_two_types_scan:
  "scanFolders (sampleRun [(''refund'', [''refund'']), (''polite'', [''please''])] [])
     [dirEntry ''AAA-1'', dirEntry ''BBB-2'', fileEntry ''README.txt'']
   = [dialogAAA [''polite'', ''refund''] [''refund'', ''please'']]"
  by (simp add: sampleRun_def dialogAAA_def sample_defs scan_defs main_defs)

lemma sampleRun_two_types:
  "main (sampleRun [(''refund'', [''refund'']), (''polite'', [''please''])] []) =
     Completed \<lparr>stats = [(''polite'', 1), (''refund'', 1)],
       allDialogs = [(''polite'', [dialogAAA [''polite'', ''refund''] [''refund'', ''please'']]),
                     (''refund'', [dialogAAA [''polite'', ''refund''] [''refund'', ''please'']])],
       console = []\<rparr>"
  by (simp add: sampleRun_def dialogAAA_def sample_defs scan_defs main_defs)

subsection \<open>Messages of other authors\<close>

lemma scanMessage_non_client:
  "\<not> HasPrefix (UserID msg) ''user_'' \<Longrightarrow> scanMessage w folderName st msg = st"
  by (simp add: scanMessage_def)

lemma scanFile_delete_message:
  assumes "\<not> HasPrefix (UserID msg) ''user_''" and "Unmarshal w c = Some (pre @ msg # post)"
  shows "scanFile (w\<lparr>Unmarshal := (Unmarshal w)(c \<mapsto> pre @ post)\<rparr>) folderPath folderName st fileName
       = scanFile w folderPath folderName st fileName"
proof -
  let ?w = "w\<lparr>Unmarshal := (Unmarshal w)(c \<mapsto> pre @ post)\<rparr>"
  have at: "addTrigger ?w = addTrigger w"
    by (intro ext) (simp add: addTrigger_def triggerExists_def)
  have sty: "scanType ?w = scanType w"
    by (intro ext) (simp add: scanType_def at Let_def cong: if_cong)
  have sm: "scanMessage ?w folderName = scanMessage w folderName"
    by (intro ext) (simp add: scanMessage_def sty Let_def cong: if_cong)
  show ?thesis
    using assms
    by (auto simp add: scanFile_def Let_def sm scanMessage_non_client split: option.splits)
qed

text \<open>
  C6. A message whose author id does not start with \<open>user_\<close> leaves the scan as it
  is: no type is marked and no trigger is recorded for it, whatever its text. The result
  for the folder is the same as if the message were not in its transcript.
\<close>

theorem non_client_message_contributes_nothing:
  assumes "\<not> HasPrefix (UserID msg) ''user_''"
  shows "scanMessage w folderName st msg = st
       \<and> (\<forall>c pre post. Unmarshal w c = Some (pre @ msg # post) \<longrightarrow>
            analyzeDialogFolder (w\<lparr>Unmarshal := (Unmarshal w)(c \<mapsto> pre @ post)\<rparr>) folderPath folderName
            = analyzeDialogFolder w folderPath folderName)"
proof (intro conjI allI impI)
  show "scanMessage w folderName st msg = st"
    using assms by (rule scanMessage_non_client)
next
  fix c pre post
  assume parsed: "Unmarshal w c = Some (pre @ msg # post)"
  let ?w = "w\<lparr>Unmarshal := (Unmarshal w)(c \<mapsto> pre @ post)\<rparr>"
  have "scanFile ?w folderPath folderName = scanFile w folderPath folderName"
    using scanFile_delete_message[OF assms parsed] by (intro ext)
  then show "analyzeDialogFolder ?w folderPath folderName = analyzeDialogFolder w folderPath folderName"
    by (simp add: analyzeDialogFolder_def split: option.splits)
qed

theorem non_client_message_contributes_nothing_witness:
  "\<not> HasPrefix (UserID (operatorMsg ''Refund is not possible'')) ''user_''
   \<and> FindPatternMatches (oneTranscript []) (ToLower (oneTranscript []) ''Refund is not possible'') ''refund''
       = [''Refund'']
   \<and> scanMessage (oneTranscript []) ''AAA-1'' initialScan (operatorMsg ''Refund is not possible'')
       = initialScan
   \<and> analyzeDialogFolder (oneTranscript [operatorMsg ''Refund is not possible'', clientMsg ''thank you''])
        ''d'' ''AAA-1'' = None"
proof -
  have h: "\<not> HasPrefix (UserID (operatorMsg ''Refund is not possible'')) ''user_''"
    by (simp add: operatorMsg_def)
  have m: "FindPatternMatches (oneTranscript []) (ToLower (oneTranscript []) ''Refund is not possible'') ''refund''
       = [''Refund'']"
    by (simp add: oneTranscript_def sample_defs)
  note n = oneTranscript_unmatched
  show ?thesis
    using h m n non_client_message_contributes_nothing[OF h, of "oneTranscript []" "''AAA-1''" initialScan]
    by simp
qed

subsection \<open>Triggers of one folder\<close>

text \<open>\<open>foldFree w ts\<close>: no entry of \<open>ts\<close> equals a later one under \<open>EqualFold\<close>.\<close>

lemma addTrigger_foldFree:
  "sorted_wrt (\<lambda>a b. \<not> EqualFold w a b) ts \<Longrightarrow>
   sorted_wrt (\<lambda>a b. \<not> EqualFold w a b) (addTrigger w ts m)"
  by (simp add: addTrigger_def triggerExists_def sorted_wrt_append list_ex_iff)

lemma addTriggers_foldFree:
  "sorted_wrt (\<lambda>a b. \<not> EqualFold w a b) ts \<Longrightarrow>
   sorted_wrt (\<lambda>a b. \<not> EqualFold w a b) (foldl (addTrigger w) ts ms)"
  by (induction ms arbitrary: ts) (simp_all add: addTrigger_foldFree)

lemma scanType_foldFree:
  "sorted_wrt (\<lambda>a b. \<not> EqualFold w a b) (foundTriggers st) \<Longrightarrow>
   sorted_wrt (\<lambda>a b. \<not> EqualFold w a b) (foundTriggers (scanType w text st k))"
  by (simp add: scanType_def Let_def addTriggers_foldFree)

lemma scanTypes_foldFree:
  "sorted_wrt (\<lambda>a b. \<not> EqualFold w a b) (foundTriggers st) \<Longrightarrow>
   sorted_wrt (\<lambda>a b. \<not> EqualFold w a b) (foundTriggers (foldl (scanType w text) st ks))"
  by (induction ks arbitrary: st) (simp_all add: scanType_foldFree)

lemma scanMessage_foldFree:
  "sorted_wrt (\<lambda>a b. \<not> EqualFold w a b) (foundTriggers st) \<Longrightarrow>
   sorted_wrt (\<lambda>a b. \<not> EqualFold w a b) (foundTriggers (scanMessage w f st msg))"
  by (simp add: scanMessage_def Let_def scanTypes_foldFree)

lemma scanMessages_foldFree:
  "sorted_wrt (\<lambda>a b. \<not> EqualFold w a b) (foundTriggers st) \<Longrightarrow>
   sorted_wrt (\<lambda>a b. \<not> EqualFold w a b) (foundTriggers (foldl (scanMessage w f) st msgs))"
  by (induction msgs arbitrary: st) (simp_all add: scanMessage_foldFree)

lemma scanFile_foldFree:
  "sorted_wrt (\<lambda>a b. \<not> EqualFold w a b) (foundTriggers st) \<Longrightarrow>
   sorted_wrt (\<lambda>a b. \<not> EqualFold w a b) (foundTriggers (scanFile w p f st n))"
  by (simp add: scanFile_def Let_def scanMessages_foldFree split: option.splits)

lemma scanFiles_foldFree:
  "sorted_wrt (\<lambda>a b. \<not> EqualFold w a b) (foundTriggers st) \<Longrightarrow>
   sorted_wrt (\<lambda>a b. \<not> EqualFold w a b) (foundTriggers (foldl (scanFile w p f) st ns))"
  by (induction ns arbitrary: st) (simp_all add: scanFile_foldFree)

lemma analyze_foldFree:
  assumes "analyzeDialogFolder w p f = Some d"
  shows "sorted_wrt (\<lambda>a b. \<not> EqualFold w a b) (Triggers d)"
proof -
  have "sorted_wrt (\<lambda>a b. \<not> EqualFold w a b) (foundTriggers initialScan)"
    by (simp add: initialScan_def)
  from scanFiles_foldFree[OF this] assms show ?thesis
    by (auto simp add: analyzeDialogFolder_def Let_def split: option.splits if_splits)
qed

lemma scanType_triggers:
  "foundTriggers (scanType w text st k) = foldl (addTrigger w) (foundTriggers st) (FindPatternMatches w text k)"
  "ranges (scanType w text st k) = ranges st"
  by (simp_all add: scanType_def Let_def)

lemma scanTypes_triggers:
  "foundTriggers (foldl (scanType w text) st ks)
     = foldl (addTrigger w) (foundTriggers st) (concat (map (FindPatternMatches w text) ks))"
  by (induction ks arbitrary: st) (simp_all add: scanType_triggers)

lemma scanTypes_ranges: "ranges (foldl (scanType w text) st ks) = ranges st"
  by (induction ks arbitrary: st) (simp_all add: scanType_triggers)

lemma scanMessage_triggers:
  "foundTriggers (scanMessage w f st msg)
     = foldl (addTrigger w) (foundTriggers st) (messagesMatches w f (ranges st) [msg])"
  by (simp add: scanMessage_def Let_def scanTypes_triggers)

lemma scanMessage_ranges:
  "ranges (scanMessage w f st msg)
     = ranges st + length (filter (\<lambda>msg. HasPrefix (UserID msg) ''user_'') [msg])"
  by (simp add: scanMessage_def Let_def scanTypes_ranges)

lemma scanMessages_ranges:
  "ranges (foldl (scanMessage w f) st msgs)
     = ranges st + length (filter (\<lambda>msg. HasPrefix (UserID msg) ''user_'') msgs)"
proof (induction msgs arbitrary: st)
  case Nil
  then show ?case by simp
next
  case (Cons msg msgs)
  have "ranges (foldl (scanMessage w f) (scanMessage w f st msg) msgs)
      = ranges (scanMessage w f st msg)
        + length (filter (\<lambda>msg. HasPrefix (UserID msg) ''user_'') msgs)"
    by (rule Cons.IH)
  then show ?case
    by (simp add: scanMessage_ranges)
qed

lemma messagesMatches_Cons:
  "messagesMatches w f n (msg # msgs)
     = messagesMatches w f n [msg]
       @ messagesMatches w f (n + length (filter (\<lambda>msg. HasPrefix (UserID msg) ''user_'') [msg])) msgs"
  by simp

lemma scanMessages_triggers:
  "foundTriggers (foldl (scanMessage w f) st msgs)
     = foldl (addTrigger w) (foundTriggers st) (messagesMatches w f (ranges st) msgs)"
proof (induction msgs arbitrary: st)
  case Nil
  then show ?case by simp
next
  case (Cons msg msgs)
  have "foundTriggers (foldl (scanMessage w f) (scanMessage w f st msg) msgs)
      = foldl (addTrigger w) (foundTriggers (scanMessage w f st msg))
          (messagesMatches w f (ranges (scanMessage w f st msg)) msgs)"
    by (rule Cons.IH)
  also have "\<dots> = foldl (addTrigger w)
        (foldl (addTrigger w) (foundTriggers st) (messagesMatches w f (ranges st) [msg]))
        (messagesMatches w f
           (ranges st + length (filter (\<lambda>msg. HasPrefix (UserID msg) ''user_'') [msg])) msgs)"
    by (simp only: scanMessage_triggers scanMessage_ranges)
  also have "\<dots> = foldl (addTrigger w) (foundTriggers st) (messagesMatches w f (ranges st) (msg # msgs))"
    by (simp only: messagesMatches_Cons[of w f "ranges st" msg msgs] foldl_append)
  finally show ?case by simp
qed

lemma scanFile_triggers:
  "foundTriggers (scanFile w p f st n)
     = foldl (addTrigger w) (foundTriggers st) (messagesMatches w f (ranges st) (fileMessages w p n))"
  by (simp add: scanFile_def fileMessages_def Let_def scanMessages_triggers split: option.splits)

lemma scanFile_ranges:
  "ranges (scanFile w p f st n)
     = ranges st + length (filter (\<lambda>msg. HasPrefix (UserID msg) ''user_'') (fileMessages w p n))"
proof (cases "Contains n ''_chat.json''")
  case False
  then show ?thesis by (simp add: scanFile_def fileMessages_def)
next
  case chat: True
  show ?thesis
  proof (cases "ReadFile w (Join w [p, n])")
    case None
    then show ?thesis using chat by (simp add: scanFile_def fileMessages_def Let_def)
  next
    case (Some content)
    then show ?thesis using chat
      by (cases "Unmarshal w content")
        (simp_all add: scanFile_def fileMessages_def Let_def scanMessages_ranges)
  qed
qed

lemma scanFiles_triggers:
  "foundTriggers (foldl (scanFile w p f) st ns)
     = foldl (addTrigger w) (foundTriggers st) (filesMatches w p f (ranges st) ns)"
proof (induction ns arbitrary: st)
  case Nil
  then show ?case by simp
next
  case (Cons n ns)
  have "foundTriggers (foldl (scanFile w p f) (scanFile w p f st n) ns)
      = foldl (addTrigger w) (foundTriggers (scanFile w p f st n))
          (filesMatches w p f (ranges (scanFile w p f st n)) ns)"
    by (rule Cons.IH)
  then show ?case
    by (simp add: scanFile_triggers scanFile_ranges)
qed

lemma analyze_triggers:
  assumes "analyzeDialogFolder w p f = Some d"
  shows "Triggers d = foldl (addTrigger w) [] (folderMatches w p f)"
  using assms scanFiles_triggers[of w p f initialScan]
  by (auto simp add: analyzeDialogFolder_def folderMatches_def Let_def initialScan_def
      split: option.splits if_splits)

lemma addTrigger_extends: "\<exists>ext. addTrigger w ts m = ts @ ext"
  by (simp add: addTrigger_def)

lemma addTriggers_prefix: "\<exists>ext. foldl (addTrigger w) ts ms = ts @ ext"
proof (induction ms arbitrary: ts)
  case Nil
  then show ?case by simp
next
  case (Cons m ms)
  obtain e where e: "foldl (addTrigger w) (addTrigger w ts m) ms = addTrigger w ts m @ e"
    using Cons.IH by blast
  obtain e' where e': "addTrigger w ts m = ts @ e'"
    using addTrigger_extends by blast
  have "foldl (addTrigger w) ts (m # ms) = ts @ (e' @ e)"
    using e e' by simp
  then show ?case by blast
qed

lemma addTrigger_subset: "set (addTrigger w ts m) \<subseteq> insert m (set ts)"
  by (auto simp add: addTrigger_def)

lemma addTriggers_subset: "set (foldl (addTrigger w) ts ms) \<subseteq> set ts \<union> set ms"
proof (induction ms arbitrary: ts)
  case Nil
  then show ?case by simp
next
  case (Cons m ms)
  have "set (foldl (addTrigger w) (addTrigger w ts m) ms) \<subseteq> set (addTrigger w ts m) \<union> set ms"
    by (rule Cons.IH)
  then show ?case
    using addTrigger_subset[of w ts m] by auto
qed

lemma addTriggers_at:
  assumes i: "i < length ms"
  shows "\<exists>ext. foldl (addTrigger w) [] ms
           = addTrigger w (foldl (addTrigger w) [] (take i ms)) (ms ! i) @ ext"
proof -
  have "ms = take i ms @ ms ! i # drop (Suc i) ms"
    using i by (simp add: id_take_nth_drop)
  then have "foldl (addTrigger w) [] ms
      = foldl (addTrigger w) (addTrigger w (foldl (addTrigger w) [] (take i ms)) (ms ! i)) (drop (Suc i) ms)"
    by (metis foldl_Cons foldl_append)
  then show ?thesis
    using addTriggers_prefix[of w "addTrigger w (foldl (addTrigger w) [] (take i ms)) (ms ! i)" "drop (Suc i) ms"]
    by simp
qed

lemma seen_before:
  assumes "t \<in> set (foldl (addTrigger w) [] (take i ms))" and "i < length ms"
  shows "\<exists>j<i. t = ms ! j"
proof -
  have "t \<in> set (take i ms)"
    using assms(1) addTriggers_subset[of w "[]" "take i ms"] by auto
  then obtain j where "j < length (take i ms)" and "take i ms ! j = t"
    by (auto simp add: in_set_conv_nth)
  then have "j < i" and "t = ms ! j"
    using assms(2) by simp_all
  then show ?thesis by blast
qed

lemma first_seen_recorded:
  assumes i: "i < length ms" and first: "\<forall>j<i. \<not> EqualFold w (ms ! j) (ms ! i)"
  shows "ms ! i \<in> set (foldl (addTrigger w) [] ms)"
proof -
  let ?r = "foldl (addTrigger w) [] (take i ms)"
  have "\<forall>t \<in> set ?r. \<not> EqualFold w t (ms ! i)"
    using first seen_before[OF _ i, of _ w] by blast
  then have "addTrigger w ?r (ms ! i) = ?r @ [ms ! i]"
    by (simp add: addTrigger_def triggerExists_def list_ex_iff)
  then show ?thesis
    using addTriggers_at[OF i, of w] by auto
qed

lemma dropped_has_earlier:
  assumes i: "i < length ms"
  shows "ms ! i \<in> set (foldl (addTrigger w) [] ms)
       \<or> (\<exists>j<i. ms ! j \<in> set (foldl (addTrigger w) [] ms) \<and> EqualFold w (ms ! j) (ms ! i))"
proof (cases "triggerExists w (foldl (addTrigger w) [] (take i ms)) (ms ! i)")
  case False
  then have "addTrigger w (foldl (addTrigger w) [] (take i ms)) (ms ! i)
      = foldl (addTrigger w) [] (take i ms) @ [ms ! i]"
    by (simp add: addTrigger_def)
  then show ?thesis
    using addTriggers_at[OF i, of w] by auto
next
  case True
  let ?r = "foldl (addTrigger w) [] (take i ms)"
  from True obtain t where t: "t \<in> set ?r" "EqualFold w t (ms ! i)"
    by (auto simp add: triggerExists_def list_ex_iff)
  from t obtain j where j: "j < i" "t = ms ! j"
    using seen_before[OF _ i, of t w] by blast
  have "addTrigger w ?r (ms ! i) = ?r"
    using True by (simp add: addTrigger_def)
  then have "t \<in> set (foldl (addTrigger w) [] ms)"
    using addTriggers_at[OF i, of w] t by auto
  then show ?thesis using j t by blast
qed

text \<open>
  C4. In the result for a folder no two entries of the trigger list are equal under
  \<open>EqualFold\<close> (which is symmetric). A match that equals a recorded trigger under
  \<open>EqualFold\<close> leaves the list as it is, any other match is appended, and the entries
  recorded before stay in place with their spelling. The trigger list of the result is
  what these steps make of all matches of the folder, taken in the order of the scan and
  starting from the empty list. So a match that no earlier match of the folder equals
  under \<open>EqualFold\<close> is in the result in its own spelling, and a match that is not in
  the result has an earlier match of the folder that equals it and is in the result.
\<close>

theorem triggers_unique_up_to_case:
  assumes sym: "\<And>a b. EqualFold w a b \<Longrightarrow> EqualFold w b a"
    and res: "analyzeDialogFolder w folderPath folderName = Some d"
  shows "(\<forall>i < length (Triggers d). \<forall>j < length (Triggers d).
            i \<noteq> j \<longrightarrow> \<not> EqualFold w (Triggers d ! i) (Triggers d ! j))
       \<and> (\<forall>ts m. (\<exists>t \<in> set ts. EqualFold w t m) \<longrightarrow> addTrigger w ts m = ts)
       \<and> (\<forall>ts m. \<not> (\<exists>t \<in> set ts. EqualFold w t m) \<longrightarrow> addTrigger w ts m = ts @ [m])
       \<and> (\<forall>ts m. take (length ts) (addTrigger w ts m) = ts)
       \<and> Triggers d = foldl (addTrigger w) [] (folderMatches w folderPath folderName)
       \<and> (\<forall>i < length (folderMatches w folderPath folderName).
            (\<forall>j < i. \<not> EqualFold w (folderMatches w folderPath folderName ! j)
                                   (folderMatches w folderPath folderName ! i)) \<longrightarrow>
            folderMatches w folderPath folderName ! i \<in> set (Triggers d))
       \<and> (\<forall>i < length (folderMatches w folderPath folderName).
            folderMatches w folderPath folderName ! i \<in> set (Triggers d)
            \<or> (\<exists>j < i. folderMatches w folderPath folderName ! j \<in> set (Triggers d)
                      \<and> EqualFold w (folderMatches w folderPath folderName ! j)
                                     (folderMatches w folderPath folderName ! i)))"
proof (intro conjI allI impI)
  show all: "Triggers d = foldl (addTrigger w) [] (folderMatches w folderPath folderName)"
    using res by (rule analyze_triggers)
  {
    fix i
    assume i: "i < length (folderMatches w folderPath folderName)"
      and first: "\<forall>j < i. \<not> EqualFold w (folderMatches w folderPath folderName ! j)
                                   (folderMatches w folderPath folderName ! i)"
    show "folderMatches w folderPath folderName ! i \<in> set (Triggers d)"
      unfolding all using i first by (rule first_seen_recorded)
  }
  {
    fix i
    assume i: "i < length (folderMatches w folderPath folderName)"
    show "folderMatches w folderPath folderName ! i \<in> set (Triggers d)
            \<or> (\<exists>j < i. folderMatches w folderPath folderName ! j \<in> set (Triggers d)
                      \<and> EqualFold w (folderMatches w folderPath folderName ! j)
                                     (folderMatches w folderPath folderName ! i))"
      unfolding all using i by (rule dropped_has_earlier)
  }
next
  fix i j
  assume i: "i < length (Triggers d)" and j: "j < length (Triggers d)" and ne: "i \<noteq> j"
  have ff: "\<And>a b. a < b \<Longrightarrow> b < length (Triggers d) \<Longrightarrow>
              \<not> EqualFold w (Triggers d ! a) (Triggers d ! b)"
    using analyze_foldFree[OF res] by (simp add: sorted_wrt_iff_nth_less)
  show "\<not> EqualFold w (Triggers d ! i) (Triggers d ! j)"
  proof (cases "i < j")
    case True
    then show ?thesis using ff j by blast
  next
    case False
    then have "j < i" using ne by simp
    then have "\<not> EqualFold w (Triggers d ! j) (Triggers d ! i)" using ff i by blast
    then show ?thesis using sym by blast
  qed
next
  fix ts m
  assume "\<exists>t \<in> set ts. EqualFold w t m"
  then show "addTrigger w ts m = ts"
    by (simp add: addTrigger_def triggerExists_def list_ex_iff)
next
  fix ts m
  assume "\<not> (\<exists>t \<in> set ts. EqualFold w t m)"
  then show "addTrigger w ts m = ts @ [m]"
    by (simp add: addTrigger_def triggerExists_def list_ex_iff)
next
  fix ts m
  show "take (length ts) (addTrigger w ts m) = ts"
    by (simp add: addTrigger_def)
qed

theorem triggers_unique_up_to_case_witness:
  "analyzeDialogFolder
     (oneTranscript [operatorMsg ''Refund is not possible'', clientMsg ''I want a REFUND, reverse the charge''])
     ''d'' ''AAA-1''
   = Some \<lparr>FolderName = ''AAA-1'', ID = ''AAA-1'', Types = [''money'', ''refund''],
           Files = [''conv_AAA-1_chat.json'', ''conv_AAA-1_info.json''],
           Triggers = [''Refund'', ''charge'']\<rparr>
   \<and> \<not> asciiEqualFold ''Refund'' ''charge''
   \<and> \<not> asciiEqualFold ''charge'' ''Refund''
   \<and> asciiEqualFold ''Refund'' ''refund''
   \<and> addTrigger
        (oneTranscript [operatorMsg ''Refund is not possible'', clientMsg ''I want a REFUND, reverse the charge''])
        [''Refund''] ''refund''
       = [''Refund'']
   \<and> folderMatches
        (oneTranscript [operatorMsg ''Refund is not possible'', clientMsg ''I want a REFUND, reverse the charge''])
        ''d'' ''AAA-1''
       = [''Refund'', ''refund'', ''charge'']
   \<and> foldl (addTrigger
        (oneTranscript [operatorMsg ''Refund is not possible'', clientMsg ''I want a REFUND, reverse the charge'']))
        [] [''Refund'', ''refund'', ''charge'']
       = [''Refund'', ''charge'']"
proof -
  let ?w = "oneTranscript [operatorMsg ''Refund is not possible'', clientMsg ''I want a REFUND, reverse the charge'']"
  let ?d = "\<lparr>FolderName = ''AAA-1'', ID = ''AAA-1'', Types = [''money'', ''refund''],
           Files = [''conv_AAA-1_chat.json'', ''conv_AAA-1_info.json''],
           Triggers = [''Refund'', ''charge'']\<rparr>"
  have ef: "EqualFold ?w = asciiEqualFold"
    by (simp add: oneTranscript_def sampleWorld_def)
  have sym: "\<And>a b. EqualFold ?w a b \<Longrightarrow> EqualFold ?w b a"
    by (simp add: ef asciiEqualFold_def)
  have res: "analyzeDialogFolder ?w ''d'' ''AAA-1'' = Some ?d"
    by (rule oneTranscript_matched)
  have fold: "asciiEqualFold ''Refund'' ''refund''"
    by (simp add: asciiEqualFold_def asciiToLower_def asciiLower_def)
  note T = triggers_unique_up_to_case[OF sym res]
  have a: "\<not> asciiEqualFold ''Refund'' ''charge''"
    using T[THEN conjunct1, rule_format, of 0 1] by (simp add: ef)
  have b: "\<not> asciiEqualFold ''charge'' ''Refund''"
    using T[THEN conjunct1, rule_format, of 1 0] by (simp add: ef)
  have c: "addTrigger ?w [''Refund''] ''refund'' = [''Refund'']"
    using T[THEN conjunct2, THEN conjunct1, rule_format, of "[''Refund'']" "''refund''"] fold
    by (simp add: ef)
  have ms: "folderMatches ?w ''d'' ''AAA-1'' = [''Refund'', ''refund'', ''charge'']"
    by (simp add: folderMatches_def fileMessages_def oneTranscript_def sample_defs)
  have e: "foldl (addTrigger ?w) [] [''Refund'', ''refund'', ''charge''] = [''Refund'', ''charge'']"
    using T[THEN conjunct2, THEN conjunct2, THEN conjunct2, THEN conjunct2, THEN conjunct1]
    by (simp only: ms ProblematicDialog.simps)
  show ?thesis using res a b fold c ms e by simp
qed

subsection \<open>The dialog ID\<close>

lemma dialogID_scanTypes: "dialogID (foldl (scanType w text) st ks) = dialogID st"
  by (induction ks arbitrary: st) (simp_all add: scanType_def Let_def)

lemma dialogID_scanMessages: "dialogID (foldl (scanMessage w f) st msgs) = dialogID st"
  by (induction msgs arbitrary: st) (simp_all add: scanMessage_def Let_def dialogID_scanTypes)

lemma dialogID_scanFile:
  "dialogID (scanFile w p f st n) =
     (if Contains n ''_chat.json''
      then (let m = FindStringSubmatch n in if length m > 1 then m ! 1 else f)
      else dialogID st)"
  by (simp add: scanFile_def Let_def dialogID_scanMessages split: option.splits)

lemma scanFile_other: "\<not> Contains n ''_chat.json'' \<Longrightarrow> scanFile w p f st n = st"
  by (simp add: scanFile_def)

lemma scanFiles_dialogID:
  "dialogID (foldl (scanFile w p f) st ns) =
     (let ts = filter (\<lambda>n. Contains n ''_chat.json'') ns
      in if ts = [] then dialogID st
         else (let m = FindStringSubmatch (last ts) in if length m > 1 then m ! 1 else f))"
proof (induction ns rule: rev_induct)
  case Nil
  then show ?case by simp
next
  case (snoc n ns)
  then show ?case
    by (simp add: dialogID_scanFile Let_def)
qed

lemma scanFiles_no_transcript:
  "filter (\<lambda>n. Contains n ''_chat.json'') ns = [] \<Longrightarrow> foldl (scanFile w p f) st ns = st"
  by (induction ns arbitrary: st) (simp_all add: scanFile_other split: if_splits)

text \<open>
  C1, as the claim states it, fails. With the transcripts \<open>conv_AAA-1_chat.json\<close> and
  \<open>conv_BBB-2_chat.json\<close> the recorded ID is \<open>BBB-2\<close>, not the first extraction
  \<open>AAA-1\<close>; with \<open>conv_AAA-1_chat.json\<close> and \<open>notes_chat.json\<close> it is the folder
  name, although the first name matches the pattern.
\<close>

theorem dialog_id_first_extraction_counterexample:
  "map_option ID (analyzeDialogFolder (twoTranscripts ''conv_BBB-2_chat.json'') ''d'' ''F-9'')
     = Some ''BBB-2''
   \<and> spec_dialogID ''F-9'' [''conv_AAA-1_chat.json'', ''conv_BBB-2_chat.json''] = ''AAA-1''
   \<and> map_option ID (analyzeDialogFolder (twoTranscripts ''notes_chat.json'') ''d'' ''F-9'')
     = Some ''F-9''
   \<and> spec_dialogID ''F-9'' [''conv_AAA-1_chat.json'', ''notes_chat.json''] = ''AAA-1''"
  by (simp add: twoTranscripts_def sample_defs scan_defs spec_dialogID_def)

text \<open>
  C1, amended. A result for a folder exists only if the folder has a transcript (a file
  whose name contains \<open>_chat.json\<close>), and its dialog ID is decided by the last
  transcript of the listing alone: the group that the pattern extracts from that name,
  or the folder name when that name does not match.
\<close>

theorem dialog_id_from_last_transcript:
  assumes res: "analyzeDialogFolder w folderPath folderName = Some d"
    and dir: "ReadDir w folderPath = Some files"
  shows "filter (\<lambda>n. Contains n ''_chat.json'') (map Name files) \<noteq> []
       \<and> ID d = (let m = FindStringSubmatch
                           (last (filter (\<lambda>n. Contains n ''_chat.json'') (map Name files)))
                 in if length m > 1 then m ! 1 else folderName)"
proof -
  let ?ns = "map Name files"
  let ?st = "foldl (scanFile w folderPath folderName) initialScan ?ns"
  from res dir have ft: "foundTypes ?st \<noteq> []" and id: "ID d = dialogID ?st"
    by (auto simp add: analyzeDialogFolder_def Let_def split: if_splits)
  have ne: "filter (\<lambda>n. Contains n ''_chat.json'') ?ns \<noteq> []"
  proof
    assume "filter (\<lambda>n. Contains n ''_chat.json'') ?ns = []"
    then have "?st = initialScan" by (rule scanFiles_no_transcript)
    with ft show False by (simp add: initialScan_def)
  qed
  show ?thesis
    using ne id scanFiles_dialogID[of w folderPath folderName initialScan ?ns]
    by (simp add: Let_def)
qed

theorem dialog_id_from_last_transcript_witness:
  "analyzeDialogFolder (twoTranscripts ''conv_BBB-2_chat.json'') ''d'' ''F-9''
     = Some \<lparr>FolderName = ''F-9'', ID = ''BBB-2'', Types = [''refund''],
             Files = [''conv_AAA-1_chat.json'', ''conv_BBB-2_chat.json''],
             Triggers = [''refund'']\<rparr>
   \<and> ReadDir (twoTranscripts ''conv_BBB-2_chat.json'') ''d''
     = Some [fileEntry ''conv_AAA-1_chat.json'', fileEntry ''conv_BBB-2_chat.json'']
   \<and> FindStringSubmatch ''conv_BBB-2_chat.json'' ! 1 = ''BBB-2''"
proof -
  let ?w = "twoTranscripts ''conv_BBB-2_chat.json''"
  let ?d = "\<lparr>FolderName = ''F-9'', ID = ''BBB-2'', Types = [''refund''],
             Files = [''conv_AAA-1_chat.json'', ''conv_BBB-2_chat.json''],
             Triggers = [''refund'']\<rparr>"
  have res: "analyzeDialogFolder ?w ''d'' ''F-9'' = Some ?d"
    by (rule twoTranscripts_matched)
  have dir: "ReadDir ?w ''d''
     = Some [fileEntry ''conv_AAA-1_chat.json'', fileEntry ''conv_BBB-2_chat.json'']"
    by (simp add: twoTranscripts_def sampleWorld_def)
  have len: "length (FindStringSubmatch ''conv_BBB-2_chat.json'') > 1"
    by (simp add: convMatchAt_def isUpperAZ_def isDigit09_def)
  have "FindStringSubmatch ''conv_BBB-2_chat.json'' ! 1 = ''BBB-2''"
    using dialog_id_from_last_transcript[OF res dir] len
    by (simp add: fileEntry_def Let_def)
  with res dir show ?thesis by simp
qed

subsection \<open>The types of one folder\<close>

lemma matchedIn_iff:
  "matchedIn w msgs k =
     (\<exists>msg \<in> set msgs. HasPrefix (UserID msg) ''user_''
                  \<and> FindPatternMatches w (ToLower w (Text msg)) k \<noteq> [])"
  by (simp add: matchedIn_def list_ex_iff)

lemma scanType_types:
  "set (foundTypes (scanType w text st k)) =
     set (foundTypes st) \<union> (if FindPatternMatches w text k \<noteq> [] then {k} else {})"
  "distinct (foundTypes st) \<Longrightarrow> distinct (foundTypes (scanType w text st k))"
  by (simp_all add: scanType_def Let_def)

lemma scanTypes_types:
  "set (foundTypes (foldl (scanType w text) st ks)) =
     set (foundTypes st) \<union> {k \<in> set ks. FindPatternMatches w text k \<noteq> []}"
  by (induction ks arbitrary: st) (auto simp add: scanType_types)

lemma scanTypes_distinct:
  "distinct (foundTypes st) \<Longrightarrow> distinct (foundTypes (foldl (scanType w text) st ks))"
  by (induction ks arbitrary: st) (simp_all add: scanType_types)

lemma scanMessages_types:
  assumes keys: "\<And>n. set (rangeProblemTypes w (ScanRoutine f) n) = set typeKeys"
  shows "set (foundTypes (foldl (scanMessage w f) st msgs)) =
     set (foundTypes st) \<union> {k \<in> set typeKeys. matchedIn w msgs k}"
proof (induction msgs arbitrary: st)
  case Nil
  then show ?case by (simp add: matchedIn_iff)
next
  case (Cons msg msgs)
  have step: "set (foundTypes (scanMessage w f st msg)) =
      set (foundTypes st) \<union> {k \<in> set typeKeys. matchedIn w [msg] k}"
    by (auto simp add: scanMessage_def Let_def scanTypes_types keys matchedIn_iff)
  have split: "\<And>k. matchedIn w (msg # msgs) k = (matchedIn w [msg] k \<or> matchedIn w msgs k)"
    by (auto simp add: matchedIn_iff)
  show ?case
    unfolding foldl_Cons Cons.IH step split by blast
qed

lemma scanMessages_distinct:
  "distinct (foundTypes st) \<Longrightarrow> distinct (foundTypes (foldl (scanMessage w f) st msgs))"
  by (induction msgs arbitrary: st) (simp_all add: scanMessage_def Let_def scanTypes_distinct)

lemma scanFile_types:
  assumes keys: "\<And>n. set (rangeProblemTypes w (ScanRoutine f) n) = set typeKeys"
  shows "set (foundTypes (scanFile w p f st n)) =
     set (foundTypes st) \<union> {k \<in> set typeKeys. matchedIn w (fileMessages w p n) k}"
proof -
  note sm = scanMessages_types[OF keys]
  have empty: "\<And>k. \<not> matchedIn w [] k"
    by (simp add: matchedIn_iff)
  show ?thesis
    by (simp add: scanFile_def fileMessages_def Let_def sm empty split: option.splits)
qed

lemma scanFile_distinct:
  "distinct (foundTypes st) \<Longrightarrow> distinct (foundTypes (scanFile w p f st n))"
  by (simp add: scanFile_def Let_def scanMessages_distinct split: option.splits)

lemma scanFiles_types:
  assumes keys: "\<And>n. set (rangeProblemTypes w (ScanRoutine f) n) = set typeKeys"
  shows "set (foundTypes (foldl (scanFile w p f) st ns)) =
     set (foundTypes st) \<union> {k \<in> set typeKeys. matchedIn w (concat (map (fileMessages w p) ns)) k}"
proof (induction ns arbitrary: st)
  case Nil
  then show ?case by (simp add: matchedIn_iff)
next
  case (Cons n ns)
  have split: "\<And>k. matchedIn w (concat (map (fileMessages w p) (n # ns))) k
      = (matchedIn w (fileMessages w p n) k \<or> matchedIn w (concat (map (fileMessages w p) ns)) k)"
    by (auto simp add: matchedIn_iff)
  show ?case
    unfolding foldl_Cons Cons.IH scanFile_types[OF keys] split by blast
qed

lemma scanFiles_distinct:
  "distinct (foundTypes st) \<Longrightarrow> distinct (foundTypes (foldl (scanFile w p f) st ns))"
  by (induction ns arbitrary: st) (simp_all add: scanFile_distinct)

text \<open>
  C5. Let every loop over \<open>problemTypes\<close> yield the keys \<open>typeKeys\<close>, in any order and
  in a different order each time. The result for a folder is absent exactly when no type
  matched a client message of a transcript of the folder. Otherwise the types of the
  result are the types that matched, each once, in increasing (bytewise lexicographic)
  order: a list that depends on no iteration order.
\<close>

theorem absent_iff_no_type_matched:
  assumes keys: "\<And>n. set (rangeProblemTypes w (ScanRoutine folderName) n) = set typeKeys"
  shows "(analyzeDialogFolder w folderPath folderName = None
            \<longleftrightarrow> \<not> (\<exists>k \<in> set typeKeys. typeMatched w folderPath k))
       \<and> (\<forall>d. analyzeDialogFolder w folderPath folderName = Some d \<longrightarrow>
            sorted (Types d) \<and> distinct (Types d)
            \<and> set (Types d) = {k \<in> set typeKeys. typeMatched w folderPath k})"
proof (cases "ReadDir w folderPath")
  case None
  then show ?thesis
    by (simp add: analyzeDialogFolder_def typeMatched_def transcriptMessages_def matchedIn_iff)
next
  case (Some files)
  let ?st = "foldl (scanFile w folderPath folderName) initialScan (map Name files)"
  have tm: "transcriptMessages w folderPath = concat (map (fileMessages w folderPath) (map Name files))"
    using Some by (simp add: transcriptMessages_def)
  have s: "set (foundTypes ?st) = {k \<in> set typeKeys. typeMatched w folderPath k}"
    using scanFiles_types[OF keys, of folderPath initialScan "map Name files"]
    by (simp add: initialScan_def typeMatched_def tm)
  have d: "distinct (foundTypes ?st)"
    by (rule scanFiles_distinct) (simp add: initialScan_def)
  have e: "(foundTypes ?st = []) = (\<not> (\<exists>k \<in> set typeKeys. typeMatched w folderPath k))"
    using s by (metis (mono_tags, lifting) empty_Collect_eq set_empty)
  show ?thesis
    using Some s d e
    by (simp add: analyzeDialogFolder_def Let_def)
qed

theorem absent_iff_no_type_matched_witness:
  "analyzeDialogFolder
     (oneTranscript [operatorMsg ''Refund is not possible'', clientMsg ''I want a REFUND, reverse the charge''])
     ''d'' ''AAA-1''
   = Some \<lparr>FolderName = ''AAA-1'', ID = ''AAA-1'', Types = [''money'', ''refund''],
           Files = [''conv_AAA-1_chat.json'', ''conv_AAA-1_info.json''],
           Triggers = [''Refund'', ''charge'']\<rparr>
   \<and> rangeProblemTypes
        (oneTranscript [operatorMsg ''Refund is not possible'', clientMsg ''I want a REFUND, reverse the charge''])
        (ScanRoutine ''AAA-1'') 0 = [''refund'', ''money'']
   \<and> sorted [''money'', ''refund'']
   \<and> typeMatched
        (oneTranscript [operatorMsg ''Refund is not possible'', clientMsg ''I want a REFUND, reverse the charge''])
        ''d'' ''money''
   \<and> analyzeDialogFolder (oneTranscript [operatorMsg ''Refund is not possible'', clientMsg ''thank you''])
        ''d'' ''AAA-1'' = None
   \<and> \<not> typeMatched (oneTranscript [operatorMsg ''Refund is not possible'', clientMsg ''thank you''])
        ''d'' ''refund''"
proof -
  let ?w = "oneTranscript [operatorMsg ''Refund is not possible'', clientMsg ''I want a REFUND, reverse the charge'']"
  let ?v = "oneTranscript [operatorMsg ''Refund is not possible'', clientMsg ''thank you'']"
  let ?d = "\<lparr>FolderName = ''AAA-1'', ID = ''AAA-1'', Types = [''money'', ''refund''],
           Files = [''conv_AAA-1_chat.json'', ''conv_AAA-1_info.json''],
           Triggers = [''Refund'', ''charge'']\<rparr>"
  have kw: "\<And>n. set (rangeProblemTypes ?w (ScanRoutine ''AAA-1'') n) = set [''refund'', ''money'']"
    by (simp add: oneTranscript_def sampleWorld_def)
  have kv: "\<And>n. set (rangeProblemTypes ?v (ScanRoutine ''AAA-1'') n) = set [''refund'', ''money'']"
    by (simp add: oneTranscript_def sampleWorld_def)
  have order: "rangeProblemTypes ?w (ScanRoutine ''AAA-1'') 0 = [''refund'', ''money'']"
    by (simp add: oneTranscript_def sampleWorld_def)
  have res: "analyzeDialogFolder ?w ''d'' ''AAA-1'' = Some ?d"
    by (rule oneTranscript_matched)
  have none: "analyzeDialogFolder ?v ''d'' ''AAA-1'' = None"
    by (rule oneTranscript_unmatched)
  note W = absent_iff_no_type_matched[OF kw, of "''d''", THEN conjunct2, rule_format, OF res]
  note V = absent_iff_no_type_matched[OF kv, of "''d''", THEN conjunct1]
  have a: "sorted [''money'', ''refund'']"
    using W by simp
  have "''money'' \<in> set (Types ?d)" by simp
  then have b: "typeMatched ?w ''d'' ''money''"
    using W by blast
  have c: "\<not> typeMatched ?v ''d'' ''refund''"
    using V none by simp
  show ?thesis
    using res order a b none c by simp
qed

subsection \<open>Failing reads\<close>

lemma scanType_dialogID_upd:
  "scanType w text (st\<lparr>dialogID := x\<rparr>) k = (scanType w text st k)\<lparr>dialogID := x\<rparr>"
  by (simp add: scanType_def Let_def)

lemma scanTypes_dialogID_upd:
  "foldl (scanType w text) (st\<lparr>dialogID := x\<rparr>) ks = (foldl (scanType w text) st ks)\<lparr>dialogID := x\<rparr>"
  by (induction ks arbitrary: st) (simp_all only: foldl.simps scanType_dialogID_upd)

lemma scanMessage_dialogID_upd:
  "scanMessage w f (st\<lparr>dialogID := x\<rparr>) msg = (scanMessage w f st msg)\<lparr>dialogID := x\<rparr>"
proof (cases "HasPrefix (UserID msg) ''user_''")
  case False
  then show ?thesis by (simp add: scanMessage_def)
next
  case True
  let ?text = "ToLower w (Text msg)"
  let ?ks = "rangeProblemTypes w (ScanRoutine f) (ranges st)"
  have sw: "st\<lparr>dialogID := x\<rparr>\<lparr>ranges := Suc (ranges st)\<rparr> = st\<lparr>ranges := Suc (ranges st)\<rparr>\<lparr>dialogID := x\<rparr>"
    by simp
  have "scanMessage w f (st\<lparr>dialogID := x\<rparr>) msg
      = foldl (scanType w ?text) (st\<lparr>dialogID := x\<rparr>\<lparr>ranges := Suc (ranges st)\<rparr>) ?ks"
    using True by (simp add: scanMessage_def Let_def)
  also have "\<dots> = foldl (scanType w ?text) (st\<lparr>ranges := Suc (ranges st)\<rparr>\<lparr>dialogID := x\<rparr>) ?ks"
    by (simp only: sw)
  also have "\<dots> = (foldl (scanType w ?text) (st\<lparr>ranges := Suc (ranges st)\<rparr>) ?ks)\<lparr>dialogID := x\<rparr>"
    by (rule scanTypes_dialogID_upd)
  also have "\<dots> = (scanMessage w f st msg)\<lparr>dialogID := x\<rparr>"
    using True by (simp add: scanMessage_def Let_def)
  finally show ?thesis .
qed

lemma scanMessages_dialogID_upd:
  "foldl (scanMessage w f) (st\<lparr>dialogID := x\<rparr>) msgs = (foldl (scanMessage w f) st msgs)\<lparr>dialogID := x\<rparr>"
  by (induction msgs arbitrary: st) (simp_all only: foldl.simps scanMessage_dialogID_upd)

lemma scanFile_dialogID_upd:
  "\<exists>y. scanFile w p f (st\<lparr>dialogID := x\<rparr>) n = (scanFile w p f st n)\<lparr>dialogID := y\<rparr>"
  by (auto simp add: scanFile_def Let_def scanMessages_dialogID_upd split: option.splits)

lemma scanFiles_dialogID_upd:
  "\<exists>y. foldl (scanFile w p f) (st\<lparr>dialogID := x\<rparr>) ns = (foldl (scanFile w p f) st ns)\<lparr>dialogID := y\<rparr>"
proof (induction ns arbitrary: st x)
  case Nil
  then show ?case by auto
next
  case (Cons n ns)
  obtain y where "scanFile w p f (st\<lparr>dialogID := x\<rparr>) n = (scanFile w p f st n)\<lparr>dialogID := y\<rparr>"
    using scanFile_dialogID_upd by blast
  then show ?case using Cons.IH by simp
qed

lemma scanFile_fails:
  "transcriptFails w p n \<Longrightarrow> \<exists>y. scanFile w p f st n = st\<lparr>dialogID := y\<rparr>"
proof (cases "Contains n ''_chat.json''")
  case False
  assume "transcriptFails w p n"
  have "scanFile w p f st n = st\<lparr>dialogID := dialogID st\<rparr>"
    using False by (simp add: scanFile_def)
  then show ?thesis by blast
next
  case True
  assume "transcriptFails w p n"
  then show ?thesis using True
    by (auto simp add: scanFile_def transcriptFails_def Let_def split: option.splits)
qed

lemma scanFiles_skip:
  assumes "transcriptFails w p n"
  shows "\<exists>y. foldl (scanFile w p f) st (pre @ n # post) = (foldl (scanFile w p f) st (pre @ post))\<lparr>dialogID := y\<rparr>"
proof -
  obtain y where "scanFile w p f (foldl (scanFile w p f) st pre) n = (foldl (scanFile w p f) st pre)\<lparr>dialogID := y\<rparr>"
    using scanFile_fails[OF assms] by blast
  then show ?thesis
    using scanFiles_dialogID_upd[where st = "foldl (scanFile w p f) st pre" and x = y and ns = post and w = w and p = p and f = f] by simp
qed

text \<open>
  C8. When the file list of the folder cannot be read, the result is absent, and the
  scans of the other folders of the run yield what they yield without this folder. A
  transcript that cannot be read or parsed adds no type and no trigger, and the scan goes
  on with the next file: the types and the triggers of the result are those that the
  folder yields without the failing file.
\<close>

theorem failed_reads_skipped:
  "(ReadDir w folderPath = None \<longrightarrow> analyzeDialogFolder w folderPath folderName = None)
   \<and> (\<forall>st fileName. transcriptFails w folderPath fileName \<longrightarrow>
         foundTypes (scanFile w folderPath folderName st fileName) = foundTypes st
         \<and> foundTriggers (scanFile w folderPath folderName st fileName) = foundTriggers st)
   \<and> (\<forall>pre x post.
         ReadDir w folderPath = Some (pre @ x # post) \<and> transcriptFails w folderPath (Name x) \<longrightarrow>
         map_option Types (analyzeDialogFolder w folderPath folderName)
           = map_option Types
               (analyzeDialogFolder (w\<lparr>ReadDir := (ReadDir w)(folderPath \<mapsto> pre @ post)\<rparr>) folderPath folderName)
         \<and> map_option Triggers (analyzeDialogFolder w folderPath folderName)
           = map_option Triggers
               (analyzeDialogFolder (w\<lparr>ReadDir := (ReadDir w)(folderPath \<mapsto> pre @ post)\<rparr>) folderPath folderName))
   \<and> (\<forall>pre x post. ReadDir w (Join w [inputDir, Name x]) = None \<longrightarrow>
         scanFolders w (pre @ x # post) = scanFolders w pre @ scanFolders w post)"
proof (intro conjI allI impI)
  assume "ReadDir w folderPath = None"
  then show "analyzeDialogFolder w folderPath folderName = None"
    by (simp add: analyzeDialogFolder_def)
next
  fix pre :: "FileInfo list" and x :: FileInfo and post :: "FileInfo list"
  assume "ReadDir w (Join w [inputDir, Name x]) = None"
  then have "analyzeDialogFolder w (Join w [inputDir, Name x]) (Name x) = None"
    by (simp add: analyzeDialogFolder_def)
  then show "scanFolders w (pre @ x # post) = scanFolders w pre @ scanFolders w post"
    by (simp add: scanFolders_def List.map_filter_def)
next
  fix st fileName
  assume "transcriptFails w folderPath fileName"
  then obtain y where "scanFile w folderPath folderName st fileName = st\<lparr>dialogID := y\<rparr>"
    using scanFile_fails by blast
  then show "foundTypes (scanFile w folderPath folderName st fileName) = foundTypes st"
    and "foundTriggers (scanFile w folderPath folderName st fileName) = foundTriggers st"
    by simp_all
next
  fix pre x post
  assume a: "ReadDir w folderPath = Some (pre @ x # post) \<and> transcriptFails w folderPath (Name x)"
  let ?w = "w\<lparr>ReadDir := (ReadDir w)(folderPath \<mapsto> pre @ post)\<rparr>"
  have at: "addTrigger ?w = addTrigger w"
    by (intro ext) (simp add: addTrigger_def triggerExists_def)
  have sty: "scanType ?w = scanType w"
    by (intro ext) (simp add: scanType_def at Let_def cong: if_cong)
  have sm: "scanMessage ?w = scanMessage w"
    by (intro ext) (simp add: scanMessage_def sty Let_def cong: if_cong)
  have sf: "scanFile ?w = scanFile w"
    by (intro ext) (simp add: scanFile_def sm Let_def cong: if_cong option.case_cong)
  obtain y where y: "foldl (scanFile w folderPath folderName) initialScan (map Name pre @ Name x # map Name post)
       = (foldl (scanFile w folderPath folderName) initialScan (map Name pre @ map Name post))\<lparr>dialogID := y\<rparr>"
    using scanFiles_skip a by blast
  show "map_option Types (analyzeDialogFolder w folderPath folderName)
           = map_option Types (analyzeDialogFolder ?w folderPath folderName)"
    using a y by (simp add: analyzeDialogFolder_def sf Let_def)
  show "map_option Triggers (analyzeDialogFolder w folderPath folderName)
           = map_option Triggers (analyzeDialogFolder ?w folderPath folderName)"
    using a y by (simp add: analyzeDialogFolder_def sf Let_def)
qed

theorem failed_reads_skipped_witness:
  "ReadDir brokenTranscript ''missing'' = None
   \<and> analyzeDialogFolder brokenTranscript ''missing'' ''F-9'' = None
   \<and> ReadDir brokenTranscript ''d''
       = Some ([] @ fileEntry ''conv_AAA-1_chat.json'' # [fileEntry ''conv_BBB-2_chat.json''])
   \<and> transcriptFails brokenTranscript ''d'' ''conv_AAA-1_chat.json''
   \<and> map_option Types (analyzeDialogFolder brokenTranscript ''d'' ''F-9'') = Some [''refund'']
   \<and> map_option Types
        (analyzeDialogFolder
           (brokenTranscript\<lparr>ReadDir := (ReadDir brokenTranscript)
              (''d'' \<mapsto> [] @ [fileEntry ''conv_BBB-2_chat.json''])\<rparr>) ''d'' ''F-9'')
       = Some [''refund'']"
proof -
  have nodir: "ReadDir brokenTranscript ''missing'' = None"
    by (simp add: brokenTranscript_def sampleWorld_def)
  have dir: "ReadDir brokenTranscript ''d''
       = Some ([] @ fileEntry ''conv_AAA-1_chat.json'' # [fileEntry ''conv_BBB-2_chat.json''])"
    by (simp add: brokenTranscript_def sampleWorld_def)
  have fails: "transcriptFails brokenTranscript ''d'' (Name (fileEntry ''conv_AAA-1_chat.json''))"
    by (simp add: transcriptFails_def brokenTranscript_def sample_defs)
  have a: "analyzeDialogFolder brokenTranscript ''missing'' ''F-9'' = None"
    using failed_reads_skipped[of brokenTranscript "''missing''" "''F-9''", THEN conjunct1] nodir
    by simp
  have b: "map_option Types (analyzeDialogFolder brokenTranscript ''d'' ''F-9'')
       = map_option Types
        (analyzeDialogFolder
           (brokenTranscript\<lparr>ReadDir := (ReadDir brokenTranscript)
              (''d'' \<mapsto> [] @ [fileEntry ''conv_BBB-2_chat.json''])\<rparr>) ''d'' ''F-9'')"
    using failed_reads_skipped[of brokenTranscript "''d''" "''F-9''", THEN conjunct2, THEN conjunct2,
        THEN conjunct1, rule_format,
        of "[]" "fileEntry ''conv_AAA-1_chat.json''" "[fileEntry ''conv_BBB-2_chat.json'']",
        THEN conjunct1] dir fails
    by blast
  show ?thesis
    using nodir a dir fails b brokenTranscript_result by (simp add: fileEntry_def)
qed

subsection \<open>Counts and lists of the aggregate\<close>

lemma lookupCount_incr:
  "lookupCount (incr m k) k' = (if k' = k then Suc (lookupCount m k) else lookupCount m k')"
  by (induction m k rule: incr.induct) (auto simp add: lookupCount_def)

lemma total_incr: "sum_list (map snd (incr m k)) = Suc (sum_list (map snd m))"
  by (induction m k rule: incr.induct) auto

lemma keys_incr: "fst ` set (incr m k) = insert k (fst ` set m)"
  by (induction m k rule: incr.induct) auto

lemma distinct_incr: "distinct (map fst m) \<Longrightarrow> distinct (map fst (incr m k))"
  by (induction m k rule: incr.induct) (auto simp add: keys_incr)

lemma lookupList_appendTo:
  "lookupList (appendTo m k d) k' = (if k' = k then lookupList m k @ [d] else lookupList m k')"
  by (induction m k d rule: appendTo.induct) (auto simp add: lookupList_def)

lemma stats_aggregateType: "stats (aggregateType w d ag t) = incr (stats ag) t"
  by (simp add: aggregateType_def Let_def)

lemma allDialogs_aggregateType:
  "allDialogs (aggregateType w d ag t) =
     (if MkdirAll w (Join w [outputBaseDir, t, FolderName d])
      then appendTo (allDialogs ag) t d else allDialogs ag)"
  by (simp add: aggregateType_def Let_def)

lemma countsCover_aggregateType:
  assumes "countsCover ag"
  shows "countsCover (aggregateType w d ag t)"
  unfolding countsCover_def
proof
  fix t'
  have "length (lookupList (allDialogs ag) t') \<le> lookupCount (stats ag) t'"
    using assms by (simp add: countsCover_def)
  then show "length (lookupList (allDialogs (aggregateType w d ag t)) t')
      \<le> lookupCount (stats (aggregateType w d ag t)) t'"
    by (auto simp add: stats_aggregateType allDialogs_aggregateType lookupCount_incr lookupList_appendTo)
qed

lemma countsCover_aggregateTypes: "countsCover ag \<Longrightarrow> countsCover (foldl (aggregateType w d) ag ts)"
  by (induction ts arbitrary: ag) (simp_all add: countsCover_aggregateType)

lemma countsCover_aggregate: "countsCover ag \<Longrightarrow> countsCover (foldl (aggregateDialog w) ag ds)"
  by (induction ds arbitrary: ag) (simp_all add: aggregateDialog_def countsCover_aggregateTypes)

lemma main_Completed:
  "main w = Completed ag \<Longrightarrow>
   \<exists>folders. ReadDir w inputDir = Some folders
     \<and> ag = foldl (aggregateDialog w) emptyAggregate (schedule w (scanFolders w folders))"
  by (auto simp add: main_def split: option.splits)

text \<open>
  C10. When the directory of a dialog under a type cannot be created, the count of the
  type has been incremented and the dialog is not appended to the list of the type. So
  at the end of a run no list is longer than the count of its type, and there is a run
  in which a count is greater than the length of the list.
\<close>

theorem counts_cover_lists:
  "(\<forall>ag (dialog :: ProblematicDialog) typeKey.
       \<not> MkdirAll w (Join w [outputBaseDir, typeKey, FolderName dialog]) \<longrightarrow>
       lookupCount (stats (aggregateType w dialog ag typeKey)) typeKey
         = Suc (lookupCount (stats ag) typeKey)
       \<and> allDialogs (aggregateType w dialog ag typeKey) = allDialogs ag)
   \<and> (\<forall>ag t. main w = Completed ag \<longrightarrow>
         length (lookupList (allDialogs ag) t) \<le> lookupCount (stats ag) t)
   \<and> (\<exists>v ag t. main v = Completed ag
         \<and> length (lookupList (allDialogs ag) t) < lookupCount (stats ag) t)"
proof (intro conjI allI impI)
  fix ag and dialog :: ProblematicDialog and typeKey
  assume "\<not> MkdirAll w (Join w [outputBaseDir, typeKey, FolderName dialog])"
  then show "lookupCount (stats (aggregateType w dialog ag typeKey)) typeKey
         = Suc (lookupCount (stats ag) typeKey)"
    and "allDialogs (aggregateType w dialog ag typeKey) = allDialogs ag"
    by (simp_all add: stats_aggregateType allDialogs_aggregateType lookupCount_incr)
next
  fix ag t
  assume "main w = Completed ag"
  then obtain folders where
    "ag = foldl (aggregateDialog w) emptyAggregate (schedule w (scanFolders w folders))"
    using main_Completed by blast
  moreover have "countsCover emptyAggregate"
    by (simp add: countsCover_def emptyAggregate_def lookupList_def lookupCount_def)
  ultimately have "countsCover ag"
    by (simp add: countsCover_aggregate)
  then show "length (lookupList (allDialogs ag) t) \<le> lookupCount (stats ag) t"
    by (simp add: countsCover_def)
next
  have "length (lookupList (allDialogs \<lparr>stats = [(''refund'', 1)], allDialogs = [],
                                        console = [ErrCreateDialogDir]\<rparr>) ''refund'')
      < lookupCount (stats \<lparr>stats = [(''refund'', 1)], allDialogs = [],
                              console = [ErrCreateDialogDir]\<rparr>) ''refund''"
    by (simp add: lookupList_def lookupCount_def)
  with sampleRun_locked
  show "\<exists>v ag t. main v = Completed ag
         \<and> length (lookupList (allDialogs ag) t) < lookupCount (stats ag) t"
    by blast
qed

theorem counts_cover_lists_witness:
  "\<not> MkdirAll (sampleRun [(''refund'', [''refund''])] [''problematicDialogs/refund/AAA-1''])
       (Join (sampleRun [(''refund'', [''refund''])] [''problematicDialogs/refund/AAA-1''])
          [outputBaseDir, ''refund'', FolderName (dialogAAA [''refund''] [''refund''])])
   \<and> main (sampleRun [(''refund'', [''refund''])] [''problematicDialogs/refund/AAA-1''])
       = Completed \<lparr>stats = [(''refund'', 1)], allDialogs = [], console = [ErrCreateDialogDir]\<rparr>
   \<and> lookupCount [(''refund'', 1)] ''refund'' = 1
   \<and> lookupList ([] :: (string \<times> ProblematicDialog list) list) ''refund'' = []
   \<and> lookupCount
        (stats (aggregateType (sampleRun [(''refund'', [''refund''])] [''problematicDialogs/refund/AAA-1''])
                  (dialogAAA [''refund''] [''refund'']) emptyAggregate ''refund'')) ''refund''
       = Suc (lookupCount (stats emptyAggregate) ''refund'')
   \<and> allDialogs (aggregateType (sampleRun [(''refund'', [''refund''])] [''problematicDialogs/refund/AAA-1''])
                  (dialogAAA [''refund''] [''refund'']) emptyAggregate ''refund'')
       = allDialogs emptyAggregate"
proof -
  let ?w = "sampleRun [(''refund'', [''refund''])] [''problematicDialogs/refund/AAA-1'']"
  have locked: "\<not> MkdirAll ?w (Join ?w [outputBaseDir, ''refund'', FolderName (dialogAAA [''refund''] [''refund''])])"
    by (simp add: sampleRun_def dialogAAA_def sample_defs outputBaseDir_def)
  note T = counts_cover_lists[of ?w]
  note step = T[THEN conjunct1, rule_format, OF locked, of emptyAggregate]
  have "length (lookupList ([] :: (string \<times> ProblematicDialog list) list) ''refund'')
          \<le> lookupCount [(''refund'', 1)] ''refund''"
    using T[THEN conjunct2, THEN conjunct1, rule_format, OF sampleRun_locked, of "''refund''"]
    by simp
  then show ?thesis
    using locked sampleRun_locked step
    by (simp add: lookupCount_def lookupList_def)
qed

subsection \<open>The total of the counts\<close>

lemma total_aggregateTypes:
  "sum_list (map snd (stats (foldl (aggregateType w d) ag ts))) = sum_list (map snd (stats ag)) + length ts"
  by (induction ts arbitrary: ag) (simp_all add: stats_aggregateType total_incr)

lemma total_aggregate:
  "sum_list (map snd (stats (foldl (aggregateDialog w) ag ds)))
     = sum_list (map snd (stats ag)) + sum_list (map (\<lambda>d. length (Types d)) ds)"
  by (induction ds arbitrary: ag) (simp_all add: aggregateDialog_def total_aggregateTypes)

lemma analyze_Types_nonempty:
  "analyzeDialogFolder w p f = Some d \<Longrightarrow> Types d \<noteq> []"
proof -
  assume a: "analyzeDialogFolder w p f = Some d"
  then obtain xs where "xs \<noteq> []" and "Types d = sort xs"
    by (auto simp add: analyzeDialogFolder_def Let_def split: option.splits if_splits)
  then have "length (Types d) \<noteq> 0" by simp
  then show ?thesis by auto
qed

lemma scanFolders_Types_nonempty:
  assumes "d \<in> set (scanFolders w folders)"
  shows "1 \<le> length (Types d)"
proof -
  from assms obtain folder :: FileInfo
    where "analyzeDialogFolder w (Join w [inputDir, Name folder]) (Name folder) = Some d"
    by (auto simp add: scanFolders_def List.map_filter_def)
  then have "Types d \<noteq> []" by (rule analyze_Types_nonempty)
  then show ?thesis by (simp add: Suc_le_eq)
qed

lemma sum_at_least_length:
  fixes f :: "'a \<Rightarrow> nat"
  assumes "\<And>x. x \<in> set xs \<Longrightarrow> 1 \<le> f x"
  shows "length xs \<le> sum_list (map f xs)
       \<and> (sum_list (map f xs) = length xs \<longleftrightarrow> (\<forall>x \<in> set xs. f x \<le> 1))"
  using assms
proof (induction xs)
  case Nil
  then show ?case by simp
next
  case (Cons x xs)
  then have ih: "length xs \<le> sum_list (map f xs)"
     "sum_list (map f xs) = length xs \<longleftrightarrow> (\<forall>x \<in> set xs. f x \<le> 1)"
    and x: "1 \<le> f x"
    by simp_all
  show ?case using ih x by auto
qed

text \<open>
  C7. Let a run reach the end of the aggregation, and let the channel deliver the dialogs
  that the scans of the folders produced, each once, in any order. Then the sum of the
  counts of all types is at least the number of these dialogs, and it is equal to that
  number exactly when no dialog has more than one type.
\<close>

theorem total_at_least_dialogs:
  assumes run: "main w = Completed ag"
    and dir: "ReadDir w inputDir = Some folders"
    and sched: "mset (schedule w (scanFolders w folders)) = mset (scanFolders w folders)"
  shows "length (scanFolders w folders) \<le> sum_list (map snd (stats ag))
       \<and> (sum_list (map snd (stats ag)) = length (scanFolders w folders)
            \<longleftrightarrow> (\<forall>d \<in> set (scanFolders w folders). length (Types d) \<le> 1))"
proof -
  let ?ds = "scanFolders w folders"
  have ag: "ag = foldl (aggregateDialog w) emptyAggregate (schedule w ?ds)"
    using main_Completed[OF run] dir by simp
  have "sum_list (map (\<lambda>d. length (Types d)) (schedule w ?ds))
        = sum_mset (image_mset (\<lambda>d. length (Types d)) (mset (schedule w ?ds)))"
    by (simp add: sum_mset_sum_list[symmetric])
  also have "\<dots> = sum_list (map (\<lambda>d. length (Types d)) ?ds)"
    by (simp add: sched sum_mset_sum_list[symmetric])
  finally have total: "sum_list (map snd (stats ag)) = sum_list (map (\<lambda>d. length (Types d)) ?ds)"
    by (simp add: ag total_aggregate emptyAggregate_def)
  show ?thesis
    unfolding total
    by (rule sum_at_least_length) (rule scanFolders_Types_nonempty)
qed

theorem total_at_least_dialogs_witness:
  "main (sampleRun [(''refund'', [''refund'']), (''polite'', [''please''])] []) =
     Completed \<lparr>stats = [(''polite'', 1), (''refund'', 1)],
       allDialogs = [(''polite'', [dialogAAA [''polite'', ''refund''] [''refund'', ''please'']]),
                     (''refund'', [dialogAAA [''polite'', ''refund''] [''refund'', ''please'']])],
       console = []\<rparr>
   \<and> ReadDir (sampleRun [(''refund'', [''refund'']), (''polite'', [''please''])] []) inputDir
       = Some [dirEntry ''AAA-1'', dirEntry ''BBB-2'', fileEntry ''README.txt'']
   \<and> scanFolders (sampleRun [(''refund'', [''refund'']), (''polite'', [''please''])] [])
        [dirEntry ''AAA-1'', dirEntry ''BBB-2'', fileEntry ''README.txt'']
       = [dialogAAA [''polite'', ''refund''] [''refund'', ''please'']]
   \<and> schedule (sampleRun [(''refund'', [''refund'']), (''polite'', [''please''])] [])
        [dialogAAA [''polite'', ''refund''] [''refund'', ''please'']]
       = [dialogAAA [''polite'', ''refund''] [''refund'', ''please'']]
   \<and> (1 :: nat) \<le> sum_list (map snd [(''polite'', 1 :: nat), (''refund'', 1)])
   \<and> sum_list (map snd [(''polite'', 1 :: nat), (''refund'', 1)]) \<noteq> 1
   \<and> \<not> length (Types (dialogAAA [''polite'', ''refund''] [''refund'', ''please''])) \<le> 1"
proof -
  let ?w = "sampleRun [(''refund'', [''refund'']), (''polite'', [''please''])] []"
  let ?fs = "[dirEntry ''AAA-1'', dirEntry ''BBB-2'', fileEntry ''README.txt'']"
  let ?d = "dialogAAA [''polite'', ''refund''] [''refund'', ''please'']"
  have dir: "ReadDir ?w inputDir = Some ?fs"
    by (simp add: sampleRun_def sampleWorld_def inputDir_def)
  have id: "schedule ?w [?d] = [?d]"
    by (simp add: sampleRun_def sampleWorld_def)
  have sched: "mset (schedule ?w (scanFolders ?w ?fs)) = mset (scanFolders ?w ?fs)"
    by (simp add: sampleRun_two_types_scan id)
  note T = total_at_least_dialogs[OF sampleRun_two_types dir sched]
  have a: "(1 :: nat) \<le> sum_list (map snd [(''polite'', 1 :: nat), (''refund'', 1)])"
    using T[THEN conjunct1] by (simp add: sampleRun_two_types_scan)
  have b: "\<not> length (Types ?d) \<le> 1"
    by (simp add: dialogAAA_def)
  have c: "sum_list (map snd [(''polite'', 1 :: nat), (''refund'', 1)]) \<noteq> 1"
    using T[THEN conjunct2] b by (simp add: sampleRun_two_types_scan)
  show ?thesis
    using sampleRun_two_types dir sampleRun_two_types_scan id a b c by simp
qed

subsection \<open>The listing of the input directory\<close>

text \<open>
  C9, as the claim states it, fails. The input directory of the sample run holds the
  plain file \<open>README.txt\<close>; the run prints no error and reaches the end with the
  dialog of the folder \<open>AAA-1\<close> classified.
\<close>

theorem non_directory_entry_counterexample:
  "ReadDir (sampleRun [(''refund'', [''refund''])] []) inputDir
     = Some [dirEntry ''AAA-1'', dirEntry ''BBB-2'', fileEntry ''README.txt'']
   \<and> \<not> IsDir (fileEntry ''README.txt'')
   \<and> main (sampleRun [(''refund'', [''refund''])] []) =
       Completed \<lparr>stats = [(''refund'', 1)],
                  allDialogs = [(''refund'', [dialogAAA [''refund''] [''refund'']])],
                  console = []\<rparr>"
  using sampleRun_one_type
  by (simp add: sampleRun_def sampleWorld_def inputDir_def fileEntry_def)

text \<open>
  C9, amended. Once the directories of the types are created: when the input directory
  cannot be listed, \<open>main\<close> prints the error and returns, and no folder is scanned;
  otherwise the entries that are not directories are passed over without a message, and
  the run goes on to scan and aggregate the entries that are directories: an entry that
  is not a directory, wherever it stands in the listing, changes nothing in what the
  scans yield.
\<close>

theorem input_listing:
  assumes "createTypeDirs w (rangeProblemTypes w MainRoutine 0) = None"
  shows "(ReadDir w inputDir = None \<longrightarrow> main w = Aborted ErrReadInputDir)
       \<and> (\<forall>folders. ReadDir w inputDir = Some folders \<longrightarrow>
            main w = Completed (foldl (aggregateDialog w) emptyAggregate
                                  (schedule w (scanFolders w (filter IsDir folders)))))
       \<and> (\<forall>pre x post. \<not> IsDir x \<longrightarrow>
            scanFolders w (pre @ x # post) = scanFolders w (pre @ post))"
proof (intro conjI allI impI)
  assume "ReadDir w inputDir = None"
  with assms show "main w = Aborted ErrReadInputDir"
    by (simp add: main_def)
next
  fix folders
  assume "ReadDir w inputDir = Some folders"
  moreover have "scanFolders w (filter IsDir folders) = scanFolders w folders"
    by (simp add: scanFolders_def)
  ultimately show "main w = Completed (foldl (aggregateDialog w) emptyAggregate
                                  (schedule w (scanFolders w (filter IsDir folders))))"
    using assms by (simp add: main_def)
next
  fix pre :: "FileInfo list" and x :: FileInfo and post :: "FileInfo list"
  assume "\<not> IsDir x"
  then show "scanFolders w (pre @ x # post) = scanFolders w (pre @ post)"
    by (simp add: scanFolders_def)
qed

theorem input_listing_witness:
  "createTypeDirs (sampleWorld [] [] [] [(''refund'', [''refund''])] [])
     (rangeProblemTypes (sampleWorld [] [] [] [(''refund'', [''refund''])] []) MainRoutine 0) = None
   \<and> ReadDir (sampleWorld [] [] [] [(''refund'', [''refund''])] []) inputDir = None
   \<and> main (sampleWorld [] [] [] [(''refund'', [''refund''])] []) = Aborted ErrReadInputDir
   \<and> createTypeDirs (sampleRun [(''refund'', [''refund''])] [])
       (rangeProblemTypes (sampleRun [(''refund'', [''refund''])] []) MainRoutine 0) = None
   \<and> ReadDir (sampleRun [(''refund'', [''refund''])] []) inputDir
       = Some [dirEntry ''AAA-1'', dirEntry ''BBB-2'', fileEntry ''README.txt'']
   \<and> foldl (aggregateDialog (sampleRun [(''refund'', [''refund''])] [])) emptyAggregate
        (schedule (sampleRun [(''refund'', [''refund''])] [])
           (scanFolders (sampleRun [(''refund'', [''refund''])] [])
              (filter IsDir [dirEntry ''AAA-1'', dirEntry ''BBB-2'', fileEntry ''README.txt''])))
       = \<lparr>stats = [(''refund'', 1)],
          allDialogs = [(''refund'', [dialogAAA [''refund''] [''refund'']])],
          console = []\<rparr>"
proof -
  let ?v = "sampleWorld [] [] [] [(''refund'', [''refund''])] []"
  let ?w = "sampleRun [(''refund'', [''refund''])] []"
  have cv: "createTypeDirs ?v (rangeProblemTypes ?v MainRoutine 0) = None"
    by (simp add: sampleWorld_def)
  have cw: "createTypeDirs ?w (rangeProblemTypes ?w MainRoutine 0) = None"
    by (simp add: sampleRun_def sampleWorld_def)
  have dv: "ReadDir ?v inputDir = None"
    by (simp add: sampleWorld_def)
  have dw: "ReadDir ?w inputDir = Some [dirEntry ''AAA-1'', dirEntry ''BBB-2'', fileEntry ''README.txt'']"
    by (simp add: sampleRun_def sampleWorld_def inputDir_def)
  have a: "main ?v = Aborted ErrReadInputDir"
    using input_listing[OF cv, THEN conjunct1] dv by simp
  have b: "main ?w = Completed (foldl (aggregateDialog ?w) emptyAggregate
        (schedule ?w (scanFolders ?w
           (filter IsDir [dirEntry ''AAA-1'', dirEntry ''BBB-2'', fileEntry ''README.txt'']))))"
    using input_listing[OF cw, THEN conjunct2, THEN conjunct1, rule_format, OF dw] .
  show ?thesis
    using cv cw dv dw a b sampleRun_one_type by simp
qed

subsection \<open>The ranking of the types\<close>

text \<open>
  C3, as the claim states it, fails. The sample run with two types stores the count of
  \<open>polite\<close> before the count of \<open>refund\<close>, and both counts are 1. The loop over
  \<open>stats\<close> may yield \<open>refund\<close> first, and the slice with \<open>refund\<close> before
  \<open>polite\<close> is sorted by count, so it is a ranking that the code may print; the
  ranking that keeps the order of first storing puts \<open>polite\<close> first.
\<close>

theorem ranking_ties_counterexample:
  "main (sampleRun [(''refund'', [''refund'']), (''polite'', [''please''])] []) =
     Completed \<lparr>stats = [(''polite'', 1), (''refund'', 1)],
       allDialogs = [(''polite'', [dialogAAA [''polite'', ''refund''] [''refund'', ''please'']]),
                     (''refund'', [dialogAAA [''polite'', ''refund''] [''refund'', ''please'']])],
       console = []\<rparr>
   \<and> statsRanking [(''polite'', 1), (''refund'', 1)]
        [(''refund'', 1), (''polite'', 1)] [(''refund'', 1), (''polite'', 1)]
   \<and> spec_stableRanking [(''polite'', 1), (''refund'', 1)] = [(''polite'', 1), (''refund'', 1)]
   \<and> [(''refund'', 1 :: nat), (''polite'', 1)] \<noteq> [(''polite'', 1), (''refund'', 1)]"
  using sampleRun_two_types
  by (simp add: statsRanking_def rangeMap_def sortSlice_def spec_stableRanking_def)

text \<open>
  C3, amended. The ranking lists every type of \<open>stats\<close> once, with its count, and no
  type stands before a type with a greater count. The order of types with equal counts
  is left open: it follows from the order in which the loop over the map yields them and
  from what \<open>sort.Slice\<close> does with equal elements.
\<close>

theorem ranking_descending:
  assumes keys: "distinct (map fst m)"
    and rank: "statsRanking m its statsList"
  shows "mset statsList = mset m
       \<and> distinct (map fst statsList)
       \<and> (\<forall>i j. i < j \<and> j < length statsList \<longrightarrow> snd (statsList ! j) \<le> snd (statsList ! i))"
proof (intro conjI allI impI)
  show perm: "mset statsList = mset m"
    using rank by (simp add: statsRanking_def rangeMap_def sortSlice_def)
  then have "mset (map fst statsList) = mset (map fst m)"
    by simp
  then show "distinct (map fst statsList)"
    using keys mset_eq_imp_distinct_iff by blast
next
  fix i j
  assume "i < j \<and> j < length statsList"
  moreover have "sorted_wrt (\<lambda>a b. \<not> snd b > snd a) statsList"
    using rank by (simp add: statsRanking_def sortSlice_def)
  ultimately show "snd (statsList ! j) \<le> snd (statsList ! i)"
    by (simp add: sorted_wrt_iff_nth_less not_less)
qed

theorem ranking_descending_witness:
  "distinct (map fst [(''refund'', 1 :: nat), (''delivery'', 3), (''polite'', 1)])
   \<and> statsRanking [(''refund'', 1), (''delivery'', 3), (''polite'', 1)]
        [(''polite'', 1), (''refund'', 1), (''delivery'', 3)]
        [(''delivery'', 3), (''polite'', 1), (''refund'', 1)]
   \<and> distinct (map fst [(''delivery'', 3 :: nat), (''polite'', 1), (''refund'', 1)])
   \<and> snd ([(''delivery'', 3 :: nat), (''polite'', 1), (''refund'', 1)] ! 1)
       \<le> snd ([(''delivery'', 3 :: nat), (''polite'', 1), (''refund'', 1)] ! 0)"
proof -
  let ?m = "[(''refund'', 1 :: nat), (''delivery'', 3), (''polite'', 1)]"
  let ?its = "[(''polite'', 1 :: nat), (''refund'', 1), (''delivery'', 3)]"
  let ?out = "[(''delivery'', 3 :: nat), (''polite'', 1), (''refund'', 1)]"
  have keys: "distinct (map fst ?m)"
    by simp
  have rank: "statsRanking ?m ?its ?out"
    by (simp add: statsRanking_def rangeMap_def sortSlice_def)
  note T = ranking_descending[OF keys rank]
  have a: "distinct (map fst ?out)"
    using T by blast
  have b: "snd (?out ! 1) \<le> snd (?out ! 0)"
    using T[THEN conjunct2, THEN conjunct2, rule_format, of 0 1] by simp
  show ?thesis
    using keys rank a b by blast
qed

subsection \<open>The frequencies of the triggers\<close>

lemma lookupCount_incrs:
  "lookupCount (foldl incr m ks) k = lookupCount m k + count_list ks k"
  by (induction ks arbitrary: m) (simp_all add: lookupCount_incr)

lemma lookupCount_countDialogs:
  "lookupCount (foldl countDialog m ds) k = lookupCount m k + count_list (concat (map Triggers ds)) k"
  by (induction ds arbitrary: m) (simp_all add: countDialog_def lookupCount_incrs)

lemma lookupCount_entries:
  "lookupCount (foldl (\<lambda>triggerStats (typeKey, dialogs). foldl countDialog triggerStats dialogs) m its) k
     = lookupCount m k + count_list (concat (map Triggers (concat (map snd its)))) k"
  by (induction its arbitrary: m) (simp_all add: lookupCount_countDialogs split: prod.splits)

text \<open>
  C2, as the claim states it, fails. With the trigger \<open>Refund\<close> recorded for one dialog
  and \<open>refund\<close> for another, \<open>triggerStats\<close> has two keys with the count 1 each, where
  counting under the case-folded trigger gives one key with the count 2.
\<close>

theorem trigger_keys_counterexample:
  "triggerStatsOf [(''refund'', [dialogAAA [''refund''] [''Refund''], dialogBBB [''refund''] [''refund'']])]
     = [(''Refund'', 1), (''refund'', 1)]
   \<and> asciiEqualFold ''Refund'' ''refund''
   \<and> spec_triggerStatsOf asciiToLower
        [(''refund'', [dialogAAA [''refund''] [''Refund''], dialogBBB [''refund''] [''refund'']])]
     = [(''refund'', 2)]"
  by (simp add: triggerStatsOf_def countDialog_def dialogAAA_def dialogBBB_def
      spec_triggerStatsOf_def asciiEqualFold_def asciiToLower_def asciiLower_def)

text \<open>
  C2, amended. \<open>triggerStats\<close> is keyed by the trigger as it is recorded, byte for
  byte: the count under a key is the number of occurrences of exactly this string in the
  trigger lists of the dialogs, taken over all lists of \<open>allDialogs\<close> (a dialog with
  several types is in several lists), whatever the order of the loop over the map.
\<close>

theorem trigger_counts_exact:
  "lookupCount (triggerStatsOf its) trigger
     = count_list (concat (map Triggers (concat (map snd its)))) trigger"
proof -
  have "lookupCount [] trigger = 0"
    by (simp add: lookupCount_def)
  then show ?thesis
    by (simp add: triggerStatsOf_def lookupCount_entries)
qed

theorem trigger_counts_exact_witness:
  "lookupCount
     (triggerStatsOf
        [(''polite'', [dialogAAA [''polite'', ''refund''] [''Refund'', ''please'']]),
         (''refund'', [dialogAAA [''polite'', ''refund''] [''Refund'', ''please''],
                       dialogBBB [''refund''] [''refund'']])])
     ''Refund'' = 2"
  using trigger_counts_exact
    [of "[(''polite'', [dialogAAA [''polite'', ''refund''] [''Refund'', ''please'']]),
          (''refund'', [dialogAAA [''polite'', ''refund''] [''Refund'', ''please''],
                        dialogBBB [''refund''] [''refund'']])]" "''Refund''"]
  by (simp add: dialogAAA_def dialogBBB_def)

end
